theory Spec2Isabelle
  imports Main "HOL-Library.Multiset" "HOL-Library.List_Lexorder" "HOL-Library.Char_ord"
begin

section \<open>JavaScript values and built-ins used by the site generator\<close>

text \<open>
  The sources hold three revisions of the Eleventy configuration \<open>.eleventy.js\<close>. The
  embedding follows the newest one, the second file of \<open>src/unnamed/part_000\<close> (from its
  line 217 on): the only one with date and document type normalization. The first file
  of \<open>part_000\<close> has no entity mapping yet, and \<open>src/.eleventy.js\<close> has the entity mapping
  but still keys and sorts the dates index by the raw date and the count.

  The generator works on JSON data. A JavaScript string is a \<open>string\<close>; a value that may be
  \<open>undefined\<close> or \<open>null\<close> is a \<open>string option\<close>. Strings are taken to be ASCII:
  \<open>toLowerCase\<close>, \<open>trim\<close> and the regular-expression classes \<open>\d\<close>, \<open>\w\<close>, \<open>\s\<close> act on
  ASCII characters as written below. A JSON object, like the object literal \<open>months\<close>, is
  an association list of its own properties; reading a property also finds what every
  plain object inherits (see \<open>getProperty\<close>). A number in a metadata field stands as the
  string \<open>String\<close> makes of it.
\<close>

definition truthy :: "string option \<Rightarrow> bool" where
  "truthy v = (case v of None \<Rightarrow> False | Some s \<Rightarrow> s \<noteq> [])"

text \<open>\<open>a || b\<close> on values that are strings or absent.\<close>

definition js_or :: "string option \<Rightarrow> string option \<Rightarrow> string option" where
  "js_or a b = (if truthy a then a else b)"

text \<open>\<open>a || b\<close> where \<open>b\<close> is a string.\<close>

definition or_else :: "string option \<Rightarrow> string \<Rightarrow> string" where
  "or_else a b = (case js_or a (Some b) of Some r \<Rightarrow> r | None \<Rightarrow> b)"

text \<open>
  A value read from an object with a computed key: a string, or one of the values every
  plain object inherits from \<open>Object.prototype\<close> under the names below (eleven functions,
  and the prototype itself under \<open>__proto__\<close>). \<open>Inherited n\<close> is the value inherited under
  the name \<open>n\<close>; two of them are the same object exactly when the names are the same.
\<close>

datatype jsval = Str string | Inherited string

definition objectPrototypeNames :: "string list" where
  "objectPrototypeNames =
     [''constructor'', ''__defineGetter__'', ''__defineSetter__'', ''hasOwnProperty'',
      ''__lookupGetter__'', ''__lookupSetter__'', ''isPrototypeOf'', ''propertyIsEnumerable'',
      ''toString'', ''valueOf'', ''__proto__'', ''toLocaleString'']"

text \<open>
  \<open>obj[name]\<close> on a plain object: an own property hides an inherited one, and a name that
  is neither gives \<open>undefined\<close>.
\<close>

definition getProperty :: "(string \<times> string) list \<Rightarrow> string \<Rightarrow> jsval option" where
  "getProperty obj name =
     (case map_of obj name of
        Some v \<Rightarrow> Some (Str v)
      | None \<Rightarrow> if name \<in> set objectPrototypeNames then Some (Inherited name) else None)"

definition isTruthy :: "jsval \<Rightarrow> bool" where
  "isTruthy v = (case v of Str s \<Rightarrow> s \<noteq> [] | Inherited n \<Rightarrow> True)"

text \<open>
  \<open>String(v)\<close>, also what a template string and a property key make of \<open>v\<close>: the source
  text of a built-in function as the engine prints it, and \<open>[object Object]\<close> for the
  prototype.
\<close>

definition jsString :: "jsval \<Rightarrow> string" where
  "jsString v =
     (case v of
        Str s \<Rightarrow> s
      | Inherited n \<Rightarrow>
          if n = ''__proto__'' then ''[object Object]''
          else if n = ''constructor'' then ''function Object() { [native code] }''
          else ''function '' @ n @ ''() { [native code] }'')"

text \<open>\<open>a || b\<close> where \<open>a\<close> was read from an object.\<close>

definition valueOr :: "jsval option \<Rightarrow> jsval \<Rightarrow> jsval" where
  "valueOr a b = (case a of None \<Rightarrow> b | Some v \<Rightarrow> if isTruthy v then v else b)"

definition isDigit :: "char \<Rightarrow> bool" where
  "isDigit c = (c \<in> set ''0123456789'')"

definition isLower :: "char \<Rightarrow> bool" where
  "isLower c = (c \<in> set ''abcdefghijklmnopqrstuvwxyz'')"

definition isUpper :: "char \<Rightarrow> bool" where
  "isUpper c = (c \<in> set ''ABCDEFGHIJKLMNOPQRSTUVWXYZ'')"

text \<open>The class \<open>\w\<close>.\<close>

definition isWord :: "char \<Rightarrow> bool" where
  "isWord c = (isLower c \<or> isUpper c \<or> isDigit c \<or> c = CHR ''_'')"

text \<open>The class \<open>\s\<close> and the characters \<open>trim\<close> removes: space, tab, LF, VT, FF, CR.\<close>

definition isSpace :: "char \<Rightarrow> bool" where
  "isSpace c = (c \<in> set [CHR '' '', CHR 0x09, CHR 0x0A, CHR 0x0B, CHR 0x0C, CHR 0x0D])"

definition lowerChar :: "char \<Rightarrow> char" where
  "lowerChar c =
     (case map_of (zip ''ABCDEFGHIJKLMNOPQRSTUVWXYZ'' ''abcdefghijklmnopqrstuvwxyz'') c of
        Some l \<Rightarrow> l
      | None \<Rightarrow> c)"

definition toLowerCase :: "string \<Rightarrow> string" where
  "toLowerCase s = map lowerChar s"

definition trim :: "string \<Rightarrow> string" where
  "trim s = rev (dropWhile isSpace (rev (dropWhile isSpace s)))"

text \<open>\<open>s.padStart(2, '0')\<close>.\<close>

definition padStart2 :: "string \<Rightarrow> string" where
  "padStart2 s = replicate (2 - length s) (CHR ''0'') @ s"

text \<open>\<open>xs.join(sep)\<close>.\<close>

fun join :: "string \<Rightarrow> string list \<Rightarrow> string" where
  "join sep [] = []"
| "join sep [x] = x"
| "join sep (x # y # ys) = x @ sep @ join sep (y # ys)"

text \<open>
  \<open>parseInt(v)\<close> with no radix: leading white space is skipped, a sign is read, a prefix
  \<open>0x\<close> or \<open>0X\<close> selects radix 16, and the longest run of digits of the radix is the value.
  \<open>None\<close> is \<open>NaN\<close>: no digit was found, or the argument was \<open>undefined\<close>.

  The result is a double: the integer read, rounded to 53 significant bits (to the
  nearest, ties to the even mantissa), and \<open>Infinity\<close> beyond the largest double. All these
  values are integers, so the result is given as an \<open>int\<close>, with \<open>2 ^ 1024\<close>, which is
  larger than every finite double, standing for \<open>Infinity\<close> (and its negation for
  \<open>-Infinity\<close>); \<open>-0\<close> is 0.
\<close>

definition Infinity :: int where
  "Infinity = 2 ^ 1024"

function bitLength :: "int \<Rightarrow> nat" where
  "bitLength n = (if n \<le> 0 then 0 else Suc (bitLength (n div 2)))"
  by pat_completeness auto
termination
  by (relation "measure nat") auto

declare bitLength.simps [simp del]

definition toDouble :: "int \<Rightarrow> int" where
  "toDouble n =
     (let m = \<bar>n\<bar>; bits = bitLength m
      in if bits \<le> 53 then n
         else (let e = bits - 53;
                   q = m div 2 ^ e;
                   r = m mod 2 ^ e;
                   half = 2 ^ (e - 1);
                   q' = (if half < r \<or> (r = half \<and> odd q) then q + 1 else q);
                   v = q' * 2 ^ e;
                   w = (if Infinity \<le> v then Infinity else v)
               in if n < 0 then - w else w))"

definition digitValue :: "char \<Rightarrow> int option" where
  "digitValue c = map_of
     [(CHR ''0'', 0), (CHR ''1'', 1), (CHR ''2'', 2), (CHR ''3'', 3), (CHR ''4'', 4),
      (CHR ''5'', 5), (CHR ''6'', 6), (CHR ''7'', 7), (CHR ''8'', 8), (CHR ''9'', 9),
      (CHR ''a'', 10), (CHR ''b'', 11), (CHR ''c'', 12), (CHR ''d'', 13), (CHR ''e'', 14),
      (CHR ''f'', 15), (CHR ''A'', 10), (CHR ''B'', 11), (CHR ''C'', 12), (CHR ''D'', 13),
      (CHR ''E'', 14), (CHR ''F'', 15)] c"

definition isRadixDigit :: "int \<Rightarrow> char \<Rightarrow> bool" where
  "isRadixDigit radix c = (case digitValue c of None \<Rightarrow> False | Some v \<Rightarrow> v < radix)"

definition digitsValue :: "int \<Rightarrow> string \<Rightarrow> int" where
  "digitsValue radix ds =
     foldl (\<lambda>acc c. acc * radix + (case digitValue c of None \<Rightarrow> 0 | Some v \<Rightarrow> v)) 0 ds"

definition parseInt :: "string option \<Rightarrow> int option" where
  "parseInt v =
     (case v of
        None \<Rightarrow> None
      | Some s \<Rightarrow>
          (let t = dropWhile isSpace s;
               neg = (case t of c # _ \<Rightarrow> c = CHR ''-'' | [] \<Rightarrow> False);
               t1 = (case t of c # r \<Rightarrow> if c = CHR ''-'' \<or> c = CHR ''+'' then r else t | [] \<Rightarrow> t);
               hex = (case t1 of c # x # _ \<Rightarrow> c = CHR ''0'' \<and> (x = CHR ''x'' \<or> x = CHR ''X'')
                      | _ \<Rightarrow> False);
               radix = (if hex then 16 else 10);
               t2 = (if hex then drop 2 t1 else t1);
               ds = takeWhile (isRadixDigit radix) t2
           in if ds = [] then None
              else Some (toDouble ((if neg then - 1 else 1) * digitsValue radix ds))))"

text \<open>\<open>String(n)\<close> for a non-negative integer.\<close>

fun showNat :: "nat \<Rightarrow> string" where
  "showNat n =
     (if n < 10 then [''0123456789'' ! n]
      else showNat (n div 10) @ [''0123456789'' ! (n mod 10)])"

declare showNat.simps [simp del]

text \<open>
  A \<open>Set\<close> keeps its elements in insertion order; adding an element already present
  changes nothing. \<open>new_Set xs\<close> is the set after adding the elements of \<open>xs\<close> in order,
  read back with \<open>Array.from\<close> or the spread syntax.
\<close>

definition set_add :: "'a list \<Rightarrow> 'a \<Rightarrow> 'a list" where
  "set_add s x = (if x \<in> set s then s else s @ [x])"

definition new_Set :: "'a list \<Rightarrow> 'a list" where
  "new_Set xs = foldl set_add [] xs"

text \<open>
  A \<open>Map\<close> keeps its entries in the order in which the keys were first set;
  \<open>set\<close> on a key already present replaces the value in place.
\<close>

definition map_has :: "('k \<times> 'v) list \<Rightarrow> 'k \<Rightarrow> bool" where
  "map_has m k = (map_of m k \<noteq> None)"

fun map_set :: "('k \<times> 'v) list \<Rightarrow> 'k \<Rightarrow> 'v \<Rightarrow> ('k \<times> 'v) list" where
  "map_set [] k v = [(k, v)]"
| "map_set (e # m) k v = (if fst e = k then (k, v) # m else e # map_set m k v)"

text \<open>
  \<open>m.get(k).push(v)\<close>: the array stored under \<open>k\<close> grows by \<open>v\<close>, in place. The source
  calls it only right after making sure that \<open>k\<close> has an entry.
\<close>

fun map_push :: "('k \<times> 'v list) list \<Rightarrow> 'k \<Rightarrow> 'v \<Rightarrow> ('k \<times> 'v list) list" where
  "map_push [] k v = []"
| "map_push (e # m) k v = (if fst e = k then (k, snd e @ [v]) # m else e # map_push m k v)"

text \<open>The idiom \<open>if (!m.has(k)) m.set(k, []); m.get(k).push(v);\<close>.\<close>

definition push_to :: "('k \<times> 'v list) list \<Rightarrow> 'k \<Rightarrow> 'v \<Rightarrow> ('k \<times> 'v list) list" where
  "push_to m k v = map_push (if \<not> map_has m k then map_set m k [] else m) k v"

text \<open>
  \<open>xs.sort(cmp)\<close>: the language requires a stable sort, and with a consistent comparator
  every stable sort returns the same array; insertion from the right is one.
\<close>

fun insert_sorted :: "('a \<Rightarrow> 'a \<Rightarrow> int) \<Rightarrow> 'a \<Rightarrow> 'a list \<Rightarrow> 'a list" where
  "insert_sorted cmp x [] = [x]"
| "insert_sorted cmp x (y # ys) =
     (if cmp x y \<le> 0 then x # y # ys else y # insert_sorted cmp x ys)"

definition js_sort :: "('a \<Rightarrow> 'a \<Rightarrow> int) \<Rightarrow> 'a list \<Rightarrow> 'a list" where
  "js_sort cmp xs = foldr (insert_sorted cmp) xs []"

text \<open>
  \<open>a.localeCompare(b)\<close> is the collation of the JavaScript engine, which is no part of the
  sources: the Index Builder takes it as a parameter \<open>localeCompare\<close>, a function from two
  strings to a negative number, zero or a positive number.
\<close>

section \<open>Data model\<close>

datatype entity_key = People | Organizations | Locations | Dates | Reference_numbers

text \<open>
  The metadata of a page (\<open>string metadata\<close>) and of a document (\<open>jsval metadata\<close>, where
  the document type was read from the type mapping).
\<close>

record 't metadata =
  page_number :: "string option"
  document_number :: "string option"
  document_type :: "'t option"
  date :: "string option"

text \<open>A page: the parsed JSON file with \<open>path\<close>, \<open>filename\<close> and \<open>folder\<close> attached.\<close>

record page =
  path :: string
  filename :: string
  folder :: string
  document_metadata :: "string metadata option"
  entities :: "(entity_key \<times> string list) list option"
  full_text :: "string option"

text \<open>
  The two mapping files: \<open>dedupe.json\<close> (category, then raw name to canonical name) and the
  \<open>mappings\<close> object of \<open>dedupe_types.json\<close>.
\<close>

record config =
  dedupeMappings :: "(entity_key \<times> (string \<times> string) list) list"
  typeDedupeMap :: "(string \<times> string) list"

record document =
  unique_id :: "string option"
  document_number :: "string option"
  raw_document_numbers :: "string list"
  pages :: "page list"
  page_count :: nat
  document_metadata :: "jsval metadata"
  entities :: "(entity_key \<times> jsval list) list"
  full_text :: string
  folder :: string
  folders :: "string list"

datatype error = TypeError

section \<open>Entity Canonicalizer and Normalizer\<close>

text \<open>
  \<open>applyDedupe\<close>. The name is a string when it comes from a page, and whatever an earlier
  \<open>applyDedupe\<close> returned when it comes from a document. \<open>dedupeMappings[entityType]\<close> is
  read with one of the three fixed keys; \<open>?.[entityName]\<close> is a lookup with a computed key.
\<close>

definition applyDedupe :: "config \<Rightarrow> entity_key \<Rightarrow> jsval \<Rightarrow> jsval" where
  "applyDedupe cfg entityType entityName =
     (if \<not> isTruthy entityName then entityName
      else (case map_of (dedupeMappings cfg) entityType of
              None \<Rightarrow> entityName
            | Some m \<Rightarrow> valueOr (getProperty m (jsString entityName)) entityName))"

text \<open>
  \<open>normalizeDocType\<close>: when \<open>typeDedupeMap[trimmed]\<close> finds an inherited value,
  \<open>canonical.toLowerCase\<close> is \<open>undefined\<close> and the call raises a \<open>TypeError\<close>.
\<close>

definition normalizeDocType :: "config \<Rightarrow> jsval option \<Rightarrow> error + string option" where
  "normalizeDocType cfg docType =
     (case docType of
        None \<Rightarrow> Inr None
      | Some v \<Rightarrow>
          if \<not> isTruthy v then Inr None
          else (let trimmed = trim (jsString v);
                    canonical = valueOr (getProperty (typeDedupeMap cfg) trimmed) (Str trimmed)
                in (case canonical of
                      Str c \<Rightarrow> Inr (Some (trim (toLowerCase c)))
                    | Inherited n \<Rightarrow> Inl TypeError)))"

definition formatDocType :: "config \<Rightarrow> string option \<Rightarrow> jsval" where
  "formatDocType cfg docType =
     (case docType of
        None \<Rightarrow> Str ''Unknown''
      | Some s \<Rightarrow>
          if s = [] then Str ''Unknown''
          else (let trimmed = trim s;
                    canonical = valueOr (getProperty (typeDedupeMap cfg) trimmed) (Str trimmed)
                in canonical))"

subsection \<open>Document numbers\<close>

text \<open>\<open>.replace(/[^a-z0-9-]/g, '-')\<close>\<close>

definition replaceOther :: "string \<Rightarrow> string" where
  "replaceOther s = map (\<lambda>c. if isLower c \<or> isDigit c \<or> c = CHR ''-'' then c else CHR ''-'') s"

text \<open>\<open>.replace(/-+/g, '-')\<close>\<close>

fun collapseHyphens :: "string \<Rightarrow> string" where
  "collapseHyphens [] = []"
| "collapseHyphens [c] = [c]"
| "collapseHyphens (c # d # cs) =
     (if c = CHR ''-'' \<and> d = CHR ''-'' then collapseHyphens (d # cs)
      else c # collapseHyphens (d # cs))"

text \<open>\<open>.replace(/^-+|-+$/g, '')\<close>\<close>

definition trimHyphens :: "string \<Rightarrow> string" where
  "trimHyphens s =
     rev (dropWhile (\<lambda>c. c = CHR ''-'') (rev (dropWhile (\<lambda>c. c = CHR ''-'') s)))"

definition normalizeDocNum :: "string option \<Rightarrow> string option" where
  "normalizeDocNum docNum =
     (case docNum of
        None \<Rightarrow> None
      | Some s \<Rightarrow>
          if s = [] then None
          else Some (trimHyphens (collapseHyphens (replaceOther (toLowerCase s)))))"

subsection \<open>Dates\<close>

text \<open>The shape \<open>/^\d{4}-\d{2}-\d{2}$/\<close>, used by \<open>normalizeDate\<close> and \<open>formatDate\<close>.\<close>

definition isIsoDate :: "string \<Rightarrow> bool" where
  "isIsoDate s =
     (length s = 10 \<and> list_all isDigit (take 4 s) \<and> take 1 (drop 4 s) = ''-'' \<and>
      list_all isDigit (take 2 (drop 5 s)) \<and> take 1 (drop 7 s) = ''-'' \<and>
      list_all isDigit (drop 8 s))"

text \<open>\<open>/^\d{4}$/\<close>\<close>

definition isYear :: "string \<Rightarrow> bool" where
  "isYear s = (length s = 4 \<and> list_all isDigit s)"

definition months :: "(string \<times> string) list" where
  "months =
     [(''jan'', ''01''), (''january'', ''01''),
      (''feb'', ''02''), (''february'', ''02''),
      (''mar'', ''03''), (''march'', ''03''),
      (''apr'', ''04''), (''april'', ''04''),
      (''may'', ''05''),
      (''jun'', ''06''), (''june'', ''06''),
      (''jul'', ''07''), (''july'', ''07''),
      (''aug'', ''08''), (''august'', ''08''),
      (''sep'', ''09''), (''september'', ''09''),
      (''oct'', ''10''), (''october'', ''10''),
      (''nov'', ''11''), (''november'', ''11''),
      (''dec'', ''12''), (''december'', ''12'')]"

text \<open>
  The four \<open>str.match\<close> patterns. The character classes that follow one another in each
  pattern are disjoint, so every greedy group takes a whole run and no backtracking can
  find another match; the result holds the captured groups.
\<close>

text \<open>\<open>/^(\w+)\s+(\d{1,2}),?\s+(\d{4})$/i\<close>\<close>

definition match1 :: "string \<Rightarrow> (string \<times> string \<times> string) option" where
  "match1 s =
     (let w = takeWhile isWord s; r1 = dropWhile isWord s;
          sp1 = takeWhile isSpace r1; r2 = dropWhile isSpace r1;
          d = takeWhile isDigit r2; r3 = dropWhile isDigit r2;
          r4 = (case r3 of c # r \<Rightarrow> if c = CHR '','' then r else r3 | [] \<Rightarrow> r3);
          sp2 = takeWhile isSpace r4; y = dropWhile isSpace r4
      in if w \<noteq> [] \<and> sp1 \<noteq> [] \<and> (length d = 1 \<or> length d = 2) \<and> sp2 \<noteq> [] \<and>
            length y = 4 \<and> list_all isDigit y
         then Some (w, d, y) else None)"

text \<open>\<open>/^(\d{1,2})\s+(\w+)\s+(\d{4})$/i\<close>\<close>

definition match2 :: "string \<Rightarrow> (string \<times> string \<times> string) option" where
  "match2 s =
     (let d = takeWhile isDigit s; r1 = dropWhile isDigit s;
          sp1 = takeWhile isSpace r1; r2 = dropWhile isSpace r1;
          w = takeWhile isWord r2; r3 = dropWhile isWord r2;
          sp2 = takeWhile isSpace r3; y = dropWhile isSpace r3
      in if (length d = 1 \<or> length d = 2) \<and> sp1 \<noteq> [] \<and> w \<noteq> [] \<and> sp2 \<noteq> [] \<and>
            length y = 4 \<and> list_all isDigit y
         then Some (d, w, y) else None)"

definition isSep :: "char \<Rightarrow> bool" where
  "isSep c = (c = CHR ''/'' \<or> c = CHR ''.'')"

text \<open>
  Three runs of digits with one separator \<open>[\/\.]\<close> after the first and after the second,
  the shape shared by the last two patterns.
\<close>

definition splitSep :: "string \<Rightarrow> (string \<times> string \<times> string) option" where
  "splitSep s =
     (let a = takeWhile isDigit s; r1 = dropWhile isDigit s;
          b = takeWhile isDigit (drop 1 r1); r2 = dropWhile isDigit (drop 1 r1);
          c = drop 1 r2
      in if r1 \<noteq> [] \<and> list_all isSep (take 1 r1) \<and> r2 \<noteq> [] \<and> list_all isSep (take 1 r2) \<and>
            list_all isDigit c
         then Some (a, b, c) else None)"

text \<open>\<open>/^(\d{4})[\/\.](\d{1,2})[\/\.](\d{1,2})$/\<close>\<close>

definition match3 :: "string \<Rightarrow> (string \<times> string \<times> string) option" where
  "match3 s =
     (case splitSep s of
        None \<Rightarrow> None
      | Some (a, b, c) \<Rightarrow>
          if length a = 4 \<and> (length b = 1 \<or> length b = 2) \<and> (length c = 1 \<or> length c = 2)
          then Some (a, b, c) else None)"

text \<open>\<open>/^(\d{1,2})[\/\.](\d{1,2})[\/\.](\d{4})$/\<close>\<close>

definition match4 :: "string \<Rightarrow> (string \<times> string \<times> string) option" where
  "match4 s =
     (case splitSep s of
        None \<Rightarrow> None
      | Some (a, b, c) \<Rightarrow>
          if (length a = 1 \<or> length a = 2) \<and> (length b = 1 \<or> length b = 2) \<and> length c = 4
          then Some (a, b, c) else None)"

text \<open>
  The four attempts of \<open>normalizeDate\<close> after the two tests; each gives the returned key,
  or \<open>None\<close> when the source falls through to the next attempt. \<open>months[...]\<close> is a lookup
  with a computed key: for the word \<open>constructor\<close> it finds the inherited function, which
  is truthy and is printed into the key.
\<close>

definition monthDayYear :: "string \<Rightarrow> string option" where
  "monthDayYear str =
     (case match1 str of
        None \<Rightarrow> None
      | Some (w, d, y) \<Rightarrow>
          (case getProperty months (toLowerCase w) of
             None \<Rightarrow> None
           | Some month \<Rightarrow>
               if isTruthy month then Some (y @ ''-'' @ jsString month @ ''-'' @ padStart2 d)
               else None))"

definition dayMonthYear :: "string \<Rightarrow> string option" where
  "dayMonthYear str =
     (case match2 str of
        None \<Rightarrow> None
      | Some (d, w, y) \<Rightarrow>
          (case getProperty months (toLowerCase w) of
             None \<Rightarrow> None
           | Some month \<Rightarrow>
               if isTruthy month then Some (y @ ''-'' @ jsString month @ ''-'' @ padStart2 d)
               else None))"

definition yearMonthDay :: "string \<Rightarrow> string option" where
  "yearMonthDay str =
     (case match3 str of
        None \<Rightarrow> None
      | Some (y, m, d) \<Rightarrow> Some (y @ ''-'' @ padStart2 m @ ''-'' @ padStart2 d))"

definition usMonthDayYear :: "string \<Rightarrow> string option" where
  "usMonthDayYear str =
     (case match4 str of
        None \<Rightarrow> None
      | Some (m, d, y) \<Rightarrow> Some (y @ ''-'' @ padStart2 m @ ''-'' @ padStart2 d))"

definition normalizeDate :: "string option \<Rightarrow> string option" where
  "normalizeDate dateStr =
     (case dateStr of
        None \<Rightarrow> None
      | Some s \<Rightarrow>
          if s = [] then None
          else (let str = trim s
                in if isIsoDate str then Some str
                   else if isYear str then Some (str @ ''-00-00'')
                   else (case monthDayYear str of
                           Some r \<Rightarrow> Some r
                         | None \<Rightarrow>
                       (case dayMonthYear str of
                           Some r \<Rightarrow> Some r
                         | None \<Rightarrow>
                       (case yearMonthDay str of
                           Some r \<Rightarrow> Some r
                         | None \<Rightarrow>
                       (case usMonthDayYear str of
                           Some r \<Rightarrow> Some r
                         | None \<Rightarrow> Some str))))))"

definition endsWith :: "string \<Rightarrow> string \<Rightarrow> bool" where
  "endsWith s suffix = (length suffix \<le> length s \<and> drop (length s - length suffix) s = suffix)"

definition monthNames :: "string list" where
  "monthNames =
     ['''', ''January'', ''February'', ''March'', ''April'', ''May'', ''June'',
      ''July'', ''August'', ''September'', ''October'', ''November'', ''December'']"

text \<open>A number inside a template string; \<open>parseInt\<close> of two digits is never negative.\<close>

definition showNumber :: "int option \<Rightarrow> string" where
  "showNumber v = (case v of None \<Rightarrow> ''NaN'' | Some n \<Rightarrow> showNat (nat n))"

definition formatDate :: "string option \<Rightarrow> string" where
  "formatDate normalizedDate =
     (case normalizedDate of
        None \<Rightarrow> ''Unknown Date''
      | Some s \<Rightarrow>
          if s = [] then ''Unknown Date''
          else if endsWith s ''-00-00'' then take 4 s
          else if isIsoDate s
          then (let year = take 4 s;
                    month = parseInt (Some (take 2 (drop 5 s)));
                    day = parseInt (Some (drop 8 s))
                in (case month of
                      None \<Rightarrow> s
                    | Some m \<Rightarrow>
                        if 0 < m \<and> m \<le> 12
                        then monthNames ! nat m @ '' '' @ showNumber day @ '', '' @ year
                        else s))
          else s)"

section \<open>Document Assembler\<close>

text \<open>\<open>page.document_metadata?.document_number\<close> and \<open>page.document_metadata?.page_number\<close>\<close>

definition rawDocNum :: "page \<Rightarrow> string option" where
  "rawDocNum pg =
     (case page.document_metadata pg of None \<Rightarrow> None | Some md \<Rightarrow> metadata.document_number md)"

definition rawPageNumber :: "page \<Rightarrow> string option" where
  "rawPageNumber pg =
     (case page.document_metadata pg of None \<Rightarrow> None | Some md \<Rightarrow> page_number md)"

text \<open>
  The body of \<open>pages.forEach\<close>: one page is pushed to the group of its key. The keys of
  \<open>documentMap\<close> are what \<open>normalizeDocNum\<close> returns, or the fallback key.
\<close>

definition groupPage ::
  "(string option \<times> page list) list \<Rightarrow> page \<Rightarrow> (string option \<times> page list) list" where
  "groupPage documentMap pg =
     (if \<not> truthy (rawDocNum pg)
      then (let fallbackKey = js_or (normalizeDocNum (Some (filename pg))) (Some (filename pg))
            in push_to documentMap fallbackKey pg)
      else (let normalizedDocNum = normalizeDocNum (rawDocNum pg)
            in push_to documentMap normalizedDocNum pg))"

text \<open>
  \<open>parseInt(a.document_metadata?.page_number) || 0\<close>: \<open>NaN\<close> and 0 both give 0. The
  comparator returns \<open>pageA - pageB\<close>, of which \<open>sort\<close> uses the sign only: the difference
  of two doubles has the sign of the exact difference, and where the source gets \<open>NaN\<close>
  (from \<open>Infinity - Infinity\<close>), which \<open>sort\<close> takes as 0, the difference here is 0.
\<close>

definition pageSortKey :: "page \<Rightarrow> int" where
  "pageSortKey pg =
     (case parseInt (rawPageNumber pg) of None \<Rightarrow> 0 | Some n \<Rightarrow> if n = 0 then 0 else n)"

definition comparePages :: "page \<Rightarrow> page \<Rightarrow> int" where
  "comparePages a b = (let pageA = pageSortKey a; pageB = pageSortKey b in pageA - pageB)"

text \<open>
  The items of one entity list of a page, as values; nothing when the page or the list
  is missing.
\<close>

definition pageEntities :: "entity_key \<Rightarrow> page \<Rightarrow> jsval list" where
  "pageEntities key pg =
     (case page.entities pg of
        None \<Rightarrow> []
      | Some e \<Rightarrow> (case map_of e key of None \<Rightarrow> [] | Some items \<Rightarrow> map Str items))"

text \<open>\<open>allEntities[key]\<close> after the loop over \<open>docPages\<close>, read back as an array.\<close>

definition allEntities :: "page list \<Rightarrow> entity_key \<Rightarrow> jsval list" where
  "allEntities docPages key = new_Set (concat (map (pageEntities key) docPages))"

text \<open>
  The callback for the dates. \<open>normalizeDate\<close> tests its argument and works on
  \<open>String(dateStr)\<close>; a value is falsy exactly when that string is empty.
\<close>

definition displayDate :: "jsval \<Rightarrow> jsval" where
  "displayDate d =
     (let normalized = normalizeDate (Some (jsString d))
      in if truthy normalized then Str (formatDate normalized) else d)"

definition deduplicatedEntities :: "config \<Rightarrow> page list \<Rightarrow> (entity_key \<times> jsval list) list" where
  "deduplicatedEntities cfg docPages =
     [(People, new_Set (map (applyDedupe cfg People) (allEntities docPages People))),
      (Organizations,
         new_Set (map (applyDedupe cfg Organizations) (allEntities docPages Organizations))),
      (Locations, new_Set (map (applyDedupe cfg Locations) (allEntities docPages Locations))),
      (Dates, new_Set (map displayDate (allEntities docPages Dates))),
      (Reference_numbers, allEntities docPages Reference_numbers)]"

text \<open>The metadata of the first page with \<open>document_type\<close> and \<open>date\<close> overlaid.\<close>

definition normalizedMetadata :: "config \<Rightarrow> page \<Rightarrow> jsval metadata" where
  "normalizedMetadata cfg firstPage =
     (let md = page.document_metadata firstPage;
          docType = (case md of None \<Rightarrow> None | Some m \<Rightarrow> document_type m);
          rawDate = (case md of None \<Rightarrow> None | Some m \<Rightarrow> date m)
      in \<lparr>page_number = rawPageNumber firstPage,
          document_number = rawDocNum firstPage,
          document_type = (if truthy docType then Some (formatDocType cfg docType) else None),
          date = (if truthy rawDate then Some (formatDate (normalizeDate rawDate)) else rawDate)\<rparr>)"

text \<open>
  The callback of \<open>Array.from(documentMap.entries()).map\<close>. Reading \<open>document_metadata\<close>
  of \<open>docPages[0]\<close> raises a \<open>TypeError\<close> when the group is empty.
\<close>

definition toDocument :: "config \<Rightarrow> string option \<times> page list \<Rightarrow> error + document" where
  "toDocument cfg entry =
     (let normalizedDocNum = fst entry;
          docPages = js_sort comparePages (snd entry)
      in (case docPages of
            [] \<Rightarrow> Inl TypeError
          | firstPage # _ \<Rightarrow>
              (let folders = new_Set (map page.folder docPages);
                   rawDocNums = new_Set (filter truthy (map rawDocNum docPages))
               in Inr \<lparr>unique_id = normalizedDocNum,
                       document_number =
                         (case rawDocNums of [r] \<Rightarrow> r | _ \<Rightarrow> normalizedDocNum),
                       raw_document_numbers = map (\<lambda>r. or_else r []) rawDocNums,
                       pages = docPages,
                       page_count = length docPages,
                       document_metadata = normalizedMetadata cfg firstPage,
                       entities = deduplicatedEntities cfg docPages,
                       full_text =
                         join [CHR 0x0A, CHR 0x0A, CHR ''-'', CHR ''-'', CHR ''-'', CHR '' '',
                               CHR ''P'', CHR ''A'', CHR ''G'', CHR ''E'', CHR '' '',
                               CHR ''B'', CHR ''R'', CHR ''E'', CHR ''A'', CHR ''K'', CHR '' '',
                               CHR ''-'', CHR ''-'', CHR ''-'', CHR 0x0A, CHR 0x0A]
                           (map (\<lambda>p. or_else (page.full_text p) []) docPages),
                       folder = join '', '' folders,
                       folders = folders\<rparr>)))"

text \<open>A \<open>map\<close> whose callback may raise stops at the first error.\<close>

fun collect :: "(error + 'a) list \<Rightarrow> error + 'a list" where
  "collect [] = Inr []"
| "collect (x # xs) =
     (case x of
        Inl e \<Rightarrow> Inl e
      | Inr v \<Rightarrow> (case collect xs of Inl e \<Rightarrow> Inl e | Inr vs \<Rightarrow> Inr (v # vs)))"

definition documentMap :: "page list \<Rightarrow> (string option \<times> page list) list" where
  "documentMap loaded = foldl groupPage [] loaded"

text \<open>
  \<open>getDocuments\<close> on the pages read from the results directory. The cache only saves the
  second computation: the pages and the mappings do not change during a build.
\<close>

definition getDocuments :: "config \<Rightarrow> page list \<Rightarrow> error + document list" where
  "getDocuments cfg loaded = collect (map (toDocument cfg) (documentMap loaded))"

section \<open>Index Builder\<close>

record bucket =
  name :: jsval
  docs :: "document list"
  count :: nat

record date_bucket = bucket +
  normalizedDate :: string

record indices =
  people :: "bucket list"
  organizations :: "bucket list"
  locations :: "bucket list"
  dates :: "date_bucket list"
  documentTypes :: "bucket list"

text \<open>
  The loops of \<open>documentsData.forEach\<close>. The five maps are filled independently of one
  another, so each is the fold of its own part of the loop body over the documents. The
  parts for people, organizations and locations differ in the key only. The part for
  the document types can raise; then the whole callback raises and no index is built.
\<close>

definition indexEntity ::
  "config \<Rightarrow> entity_key \<Rightarrow> (jsval \<times> document list) list \<Rightarrow> document
     \<Rightarrow> (jsval \<times> document list) list" where
  "indexEntity cfg key m doc =
     (case map_of (document.entities doc) key of
        None \<Rightarrow> m
      | Some items \<Rightarrow>
          foldl (\<lambda>acc item. let canonicalName = applyDedupe cfg key item
                            in push_to acc canonicalName doc) m items)"

definition indexDate :: "(string \<times> document list) list \<Rightarrow> document \<Rightarrow> (string \<times> document list) list" where
  "indexDate m doc =
     (case map_of (document.entities doc) Dates of
        None \<Rightarrow> m
      | Some items \<Rightarrow>
          foldl (\<lambda>acc item. (case normalizeDate (Some (jsString item)) of
                               None \<Rightarrow> acc
                             | Some normalized \<Rightarrow>
                                 if normalized \<noteq> [] then push_to acc normalized doc else acc))
            m items)"

definition indexDocType ::
  "config \<Rightarrow> (string \<times> document list) list \<Rightarrow> document
     \<Rightarrow> error + (string \<times> document list) list" where
  "indexDocType cfg m doc =
     (let docType = document_type (document.document_metadata doc)
      in if (case docType of None \<Rightarrow> False | Some v \<Rightarrow> isTruthy v)
         then (case normalizeDocType cfg docType of
                 Inl e \<Rightarrow> Inl e
               | Inr None \<Rightarrow> Inr m
               | Inr (Some normalized) \<Rightarrow>
                   Inr (if normalized \<noteq> [] then push_to m normalized doc else m))
         else Inr m)"

text \<open>A loop whose body may raise stops at the first error.\<close>

fun foldlE :: "('s \<Rightarrow> 'a \<Rightarrow> error + 's) \<Rightarrow> 's \<Rightarrow> 'a list \<Rightarrow> error + 's" where
  "foldlE f s [] = Inr s"
| "foldlE f s (x # xs) = (case f s x of Inl e \<Rightarrow> Inl e | Inr s' \<Rightarrow> foldlE f s' xs)"

text \<open>\<open>dedupeDocArray\<close>: the filter with its \<open>seen\<close> set.\<close>

fun dedupeFilter :: "string option list \<Rightarrow> document list \<Rightarrow> document list" where
  "dedupeFilter seen [] = []"
| "dedupeFilter seen (doc # ds) =
     (if unique_id doc \<in> set seen then dedupeFilter seen ds
      else doc # dedupeFilter (set_add seen (unique_id doc)) ds)"

definition dedupeDocArray :: "document list \<Rightarrow> document list" where
  "dedupeDocArray ds = dedupeFilter [] ds"

definition byCount :: "bucket \<Rightarrow> bucket \<Rightarrow> int" where
  "byCount a b = int (count b) - int (count a)"

definition byDate :: "(string \<Rightarrow> string \<Rightarrow> int) \<Rightarrow> date_bucket \<Rightarrow> date_bucket \<Rightarrow> int" where
  "byDate localeCompare a b = localeCompare (normalizedDate b) (normalizedDate a)"

definition entityBuckets :: "(jsval \<times> document list) list \<Rightarrow> bucket list" where
  "entityBuckets m =
     js_sort byCount
       (map (\<lambda>e. \<lparr>name = fst e, docs = dedupeDocArray (snd e),
                  count = length (dedupeDocArray (snd e))\<rparr>) m)"

definition dateBuckets ::
  "(string \<Rightarrow> string \<Rightarrow> int) \<Rightarrow> (string \<times> document list) list \<Rightarrow> date_bucket list" where
  "dateBuckets localeCompare m =
     js_sort (byDate localeCompare)
       (map (\<lambda>e. \<lparr>name = Str (formatDate (Some (fst e))), docs = dedupeDocArray (snd e),
                  count = length (dedupeDocArray (snd e)), normalizedDate = fst e\<rparr>) m)"

definition typeBuckets :: "config \<Rightarrow> (string \<times> document list) list \<Rightarrow> bucket list" where
  "typeBuckets cfg m =
     js_sort byCount
       (map (\<lambda>e. \<lparr>name = formatDocType cfg (Some (fst e)), docs = dedupeDocArray (snd e),
                  count = length (dedupeDocArray (snd e))\<rparr>) m)"

definition buildIndices ::
  "(string \<Rightarrow> string \<Rightarrow> int) \<Rightarrow> config \<Rightarrow> document list \<Rightarrow> error + indices" where
  "buildIndices localeCompare cfg documentsData =
     (case foldlE (indexDocType cfg) [] documentsData of
        Inl e \<Rightarrow> Inl e
      | Inr typeMap \<Rightarrow>
          Inr \<lparr>people = entityBuckets (foldl (indexEntity cfg People) [] documentsData),
               organizations =
                 entityBuckets (foldl (indexEntity cfg Organizations) [] documentsData),
               locations = entityBuckets (foldl (indexEntity cfg Locations) [] documentsData),
               dates = dateBuckets localeCompare (foldl indexDate [] documentsData),
               documentTypes = typeBuckets cfg typeMap\<rparr>)"

text \<open>The \<open>indices\<close> global data: the indices of the assembled documents.\<close>

definition indicesData ::
  "(string \<Rightarrow> string \<Rightarrow> int) \<Rightarrow> config \<Rightarrow> page list \<Rightarrow> error + indices" where
  "indicesData localeCompare cfg loaded =
     (case getDocuments cfg loaded of
        Inl e \<Rightarrow> Inl e
      | Inr documentsData \<Rightarrow> buildIndices localeCompare cfg documentsData)"

section \<open>Definitions used in the statements and proofs\<close>

text \<open>
  The key under which \<open>groupPage\<close> files a page: the normalized document number when the
  page has one, otherwise the normalized file name, or the file name itself when that
  is empty.
\<close>

definition groupKey :: "page \<Rightarrow> string option" where
  "groupKey pg =
     (if truthy (rawDocNum pg) then normalizeDocNum (rawDocNum pg)
      else if truthy (normalizeDocNum (Some (filename pg))) then normalizeDocNum (Some (filename pg))
      else Some (filename pg))"

text \<open>
  What a \<open>Map\<close> holds after the pairs \<open>kvs\<close> were pushed to it in order: the keys in order
  of first appearance, each with its values in order.
\<close>

definition grouped :: "('k \<times> 'v) list \<Rightarrow> ('k \<times> 'v list) list" where
  "grouped kvs =
     map (\<lambda>k. (k, map snd (filter (\<lambda>kv. fst kv = k) kvs))) (new_Set (map fst kvs))"

text \<open>The pushes one document makes to an entity map and to the date map.\<close>

definition entityPushes :: "config \<Rightarrow> entity_key \<Rightarrow> document \<Rightarrow> (jsval \<times> document) list" where
  "entityPushes cfg key doc =
     (case map_of (document.entities doc) key of
        None \<Rightarrow> []
      | Some items \<Rightarrow> map (\<lambda>item. (applyDedupe cfg key item, doc)) items)"

definition datePushes :: "document \<Rightarrow> (string \<times> document) list" where
  "datePushes doc =
     (case map_of (document.entities doc) Dates of
        None \<Rightarrow> []
      | Some items \<Rightarrow>
          concat (map (\<lambda>item. (case normalizeDate (Some (jsString item)) of
                                 None \<Rightarrow> []
                               | Some normalized \<Rightarrow>
                                   if normalized \<noteq> [] then [(normalized, doc)] else [])) items))"

text \<open>
  The comparison of two strings character by character, by character code: a collation
  to run the Index Builder with.
\<close>

definition codeUnitCompare :: "string \<Rightarrow> string \<Rightarrow> int" where
  "codeUnitCompare a b = (if a < b then - 1 else if a = b then 0 else 1)"

text \<open>
  What is asked of the engine's collation. Any two strings are comparable and the
  comparison is transitive, as for every comparator the language calls consistent; and
  on two keys of the shape \<open>YYYY-MM-DD\<close>, which differ in digits only, it decides as the
  comparison character by character does. Nothing is asked of it on other keys, such
  as the date strings that \<open>normalizeDate\<close> could not parse.
\<close>

definition consistentCollation :: "(string \<Rightarrow> string \<Rightarrow> int) \<Rightarrow> bool" where
  "consistentCollation localeCompare =
     ((\<forall>x y. localeCompare x y \<le> 0 \<or> localeCompare y x \<le> 0) \<and>
      (\<forall>x y z. localeCompare x y \<le> 0 \<and> localeCompare y z \<le> 0 \<longrightarrow> localeCompare x z \<le> 0))"

definition agreesOnDates :: "(string \<Rightarrow> string \<Rightarrow> int) \<Rightarrow> bool" where
  "agreesOnDates localeCompare =
     (\<forall>x y. isIsoDate x \<and> isIsoDate y \<longrightarrow> (localeCompare x y \<le> 0 \<longleftrightarrow> x \<le> y))"

subsection \<open>A small corpus\<close>

definition exampleConfig :: config where
  "exampleConfig =
     \<lparr>dedupeMappings = [(People, [(''J. Epstein'', ''Jeffrey Epstein'')])], typeDedupeMap = []\<rparr>"

definition page1 :: page where
  "page1 =
     \<lparr>path = ''a/1.json'', filename = ''1'', folder = ''a'',
      document_metadata =
        Some \<lparr>page_number = Some ''2'', document_number = Some ''Doc #12-A'',
              document_type = Some ''Letter'', date = Some ''Feb 3, 2010''\<rparr>,
      entities = Some [(People, [''J. Epstein'', ''Jeffrey Epstein'']),
                       (Dates, [''Feb 3, 2010'', '''', ''2005''])],
      full_text = Some ''hello''\<rparr>"

definition page2 :: page where
  "page2 =
     \<lparr>path = ''a/2.json'', filename = ''2'', folder = ''a'',
      document_metadata =
        Some \<lparr>page_number = Some ''1'', document_number = Some ''DOC 12 A'',
              document_type = None, date = None\<rparr>,
      entities = None, full_text = None\<rparr>"

definition page3 :: page where
  "page3 =
     \<lparr>path = ''scan_042.json'', filename = ''scan_042'', folder = ''root'',
      document_metadata = None, entities = None, full_text = None\<rparr>"

definition examplePages :: "page list" where
  "examplePages = [page1, page2, page3]"

text \<open>
  A mapping that sends \<open>A\<close> to \<open>B\<close> and \<open>B\<close> to \<open>C\<close>, and a page naming both: the
  document stores \<open>B\<close> and \<open>C\<close>, and the index files it under \<open>C\<close> twice.
\<close>

definition chainConfig :: config where
  "chainConfig = \<lparr>dedupeMappings = [(People, [(''A'', ''B''), (''B'', ''C'')])], typeDedupeMap = []\<rparr>"

definition chainPage :: page where
  "chainPage =
     \<lparr>path = ''x.json'', filename = ''x'', folder = ''root'',
      document_metadata =
        Some \<lparr>page_number = Some ''1'', document_number = Some ''X'',
              document_type = Some ''Memo'', date = None\<rparr>,
      entities = Some [(People, [''A'', ''B''])], full_text = None\<rparr>"

definition chainDocs :: "document list" where
  "chainDocs = (case getDocuments chainConfig [chainPage] of Inr ds \<Rightarrow> ds | Inl e \<Rightarrow> [])"

text \<open>
  Three one-page documents with dates: the older date is named by two of them, the newer
  by one, and the third has only dates that normalize to nothing.
\<close>

definition pageA :: page where
  "pageA =
     \<lparr>path = ''a.json'', filename = ''a'', folder = ''root'',
      document_metadata =
        Some \<lparr>page_number = None, document_number = Some ''A'',
              document_type = None, date = None\<rparr>,
      entities = Some [(Dates, [''2023-11-02''])], full_text = None\<rparr>"

definition pageB :: page where
  "pageB =
     \<lparr>path = ''b.json'', filename = ''b'', folder = ''root'',
      document_metadata =
        Some \<lparr>page_number = None, document_number = Some ''B'',
              document_type = None, date = None\<rparr>,
      entities = Some [(Dates, [''Nov 2, 2023'', ''2024-05-01''])], full_text = None\<rparr>"

definition pageC :: page where
  "pageC =
     \<lparr>path = ''c.json'', filename = ''c'', folder = ''root'',
      document_metadata =
        Some \<lparr>page_number = None, document_number = Some ''C'',
              document_type = None, date = None\<rparr>,
      entities = Some [(Dates, ['''', ''   ''])], full_text = None\<rparr>"

definition dateDocs :: "document list" where
  "dateDocs =
     (case getDocuments exampleConfig [pageA, pageB, pageC] of Inr ds \<Rightarrow> ds | Inl e \<Rightarrow> [])"

text \<open>
  A trimmed date string that none of the six attempts of \<open>normalizeDate\<close> accepts: not
  \<open>YYYY-MM-DD\<close>, not a bare year, no month name with day and year in either order, and
  no numeric date with separators in either order.
\<close>

definition unrecognized :: "string \<Rightarrow> bool" where
  "unrecognized str =
     (\<not> isIsoDate str \<and> \<not> isYear str \<and> monthDayYear str = None \<and> dayMonthYear str = None \<and>
      yearMonthDay str = None \<and> usMonthDayYear str = None)"

text \<open>A mapping with an empty canonical name, and with an entry for the empty name.\<close>

definition emptyValueConfig :: config where
  "emptyValueConfig =
     \<lparr>dedupeMappings = [(People, [(''X'', ''''), ('''', ''Nobody'')])], typeDedupeMap = []\<rparr>"

text \<open>The mapping the generator starts with when \<open>dedupe.json\<close> is missing.\<close>

definition defaultConfig :: config where
  "defaultConfig =
     \<lparr>dedupeMappings = [(People, []), (Organizations, []), (Locations, [])], typeDedupeMap = []\<rparr>"

text \<open>Two pages of one document: one without a page number, one numbered \<open>-2\<close>.\<close>

definition unnumberedPage :: page where
  "unnumberedPage =
     \<lparr>path = ''m.json'', filename = ''m'', folder = ''root'',
      document_metadata =
        Some \<lparr>page_number = None, document_number = Some ''N-7'',
              document_type = None, date = None\<rparr>,
      entities = None, full_text = None\<rparr>"

definition negativePage :: page where
  "negativePage =
     \<lparr>path = ''n.json'', filename = ''n'', folder = ''root'',
      document_metadata =
        Some \<lparr>page_number = Some ''-2'', document_number = Some ''N-7'',
              document_type = None, date = None\<rparr>,
      entities = None, full_text = None\<rparr>"

text \<open>A third page of that document, numbered 3.\<close>

definition thirdPage :: page where
  "thirdPage =
     \<lparr>path = ''o.json'', filename = ''o'', folder = ''root'',
      document_metadata =
        Some \<lparr>page_number = Some ''3'', document_number = Some ''N-7'',
              document_type = None, date = None\<rparr>,
      entities = None, full_text = None\<rparr>"

section \<open>Properties\<close>

subsection \<open>Concrete dates\<close>

text \<open>
  Claim C8. \<open>normalizeDate("Feb 3, 2010")\<close> is \<open>"2010-02-03"\<close>, which \<open>formatDate\<close> shows as
  \<open>"February 3, 2010"\<close>; \<open>formatDate("2005-00-00")\<close> is \<open>"2005"\<close>; and
  \<open>formatDate("2005-02-15")\<close> is \<open>"February 15, 2005"\<close>.
\<close>

theorem date_examples:
  "normalizeDate (Some ''Feb 3, 2010'') = Some ''2010-02-03'' \<and>
   formatDate (normalizeDate (Some ''Feb 3, 2010'')) = ''February 3, 2010'' \<and>
   formatDate (Some ''2010-02-03'') = ''February 3, 2010'' \<and>
   formatDate (Some ''2005-00-00'') = ''2005'' \<and>
   formatDate (Some ''2005-02-15'') = ''February 15, 2005''"
  by code_simp

subsection \<open>Entity Canonicalizer\<close>

text \<open>
  What the lookup with a computed key does for a name every object inherits: with the
  mapping the generator starts with, \<open>applyDedupe("people", "constructor")\<close> is the inherited
  function, not the name.
\<close>

lemma applyDedupe_inherited:
  "applyDedupe defaultConfig People (Str ''constructor'') = Inherited ''constructor''"
  by code_simp

text \<open>
  Claim C9, as stated, fails: a raw name with an entry whose value is the empty string
  comes back unchanged, not as the mapping's value, and the empty name is returned before
  the mapping is consulted.
\<close>

theorem applyDedupe_counterexample:
  "map_of (dedupeMappings emptyValueConfig) People = Some [(''X'', ''''), ('''', ''Nobody'')] \<and>
   map_of [(''X'', ''''), ('''', ''Nobody'')] ''X'' = Some '''' \<and>
   applyDedupe emptyValueConfig People (Str ''X'') = Str ''X'' \<and>
   applyDedupe emptyValueConfig People (Str ''X'') \<noteq> Str '''' \<and>
   map_of [(''X'', ''''), ('''', ''Nobody'')] '''' = Some ''Nobody'' \<and>
   applyDedupe emptyValueConfig People (Str '''') \<noteq> Str ''Nobody''"
  by code_simp

text \<open>
  Claim C9, amended. \<open>applyDedupe\<close> returns the mapping's value when the raw name is not
  empty and the mapping of the category has an entry for it with a non-empty value. It
  returns the raw name unchanged when the name is empty, when there is no mapping for the
  category, when the entry's value is empty, or when the mapping has no entry for the name
  and the name is not one of the property names every object inherits; with an empty or
  missing mapping it is the identity on every such name. (For an inherited name without
  an entry the lookup finds the inherited value; the statement leaves that case out.)
\<close>

theorem applyDedupe_cases:
  "(\<forall>m v. map_of (dedupeMappings cfg) c = Some m \<longrightarrow> map_of m n = Some v \<longrightarrow> n \<noteq> [] \<longrightarrow> v \<noteq> [] \<longrightarrow>
          applyDedupe cfg c (Str n) = Str v) \<and>
   (n = [] \<or> map_of (dedupeMappings cfg) c = None \<or>
    (\<exists>m. map_of (dedupeMappings cfg) c = Some m \<and>
         (map_of m n = Some [] \<or> (map_of m n = None \<and> n \<notin> set objectPrototypeNames))) \<longrightarrow>
      applyDedupe cfg c (Str n) = Str n) \<and>
   ((\<forall>c'. map_of (dedupeMappings cfg) c' = None \<or> map_of (dedupeMappings cfg) c' = Some []) \<and>
    n \<notin> set objectPrototypeNames \<longrightarrow>
      applyDedupe cfg c (Str n) = Str n)"
proof (intro conjI allI impI)
  fix m v
  assume "map_of (dedupeMappings cfg) c = Some m" "map_of m n = Some v" "n \<noteq> []" "v \<noteq> []"
  then show "applyDedupe cfg c (Str n) = Str v"
    by (simp add: applyDedupe_def valueOr_def getProperty_def isTruthy_def jsString_def)
next
  assume "n = [] \<or> map_of (dedupeMappings cfg) c = None \<or>
    (\<exists>m. map_of (dedupeMappings cfg) c = Some m \<and>
         (map_of m n = Some [] \<or> (map_of m n = None \<and> n \<notin> set objectPrototypeNames)))"
  then show "applyDedupe cfg c (Str n) = Str n"
    by (auto simp: applyDedupe_def valueOr_def getProperty_def isTruthy_def jsString_def)
next
  assume a: "(\<forall>c'. map_of (dedupeMappings cfg) c' = None \<or> map_of (dedupeMappings cfg) c' = Some []) \<and>
    n \<notin> set objectPrototypeNames"
  have "map_of (dedupeMappings cfg) c = None \<or> map_of (dedupeMappings cfg) c = Some []"
    by (rule a[THEN conjunct1, THEN spec])
  then consider "map_of (dedupeMappings cfg) c = None" | "map_of (dedupeMappings cfg) c = Some []"
    by (elim disjE)
  then show "applyDedupe cfg c (Str n) = Str n"
  proof cases
    case 1
    then show ?thesis by (simp add: applyDedupe_def)
  next
    case 2
    with a show ?thesis
      by (simp add: applyDedupe_def valueOr_def getProperty_def isTruthy_def jsString_def)
  qed
qed

theorem applyDedupe_cases_witness:
  "map_of (dedupeMappings exampleConfig) People = Some [(''J. Epstein'', ''Jeffrey Epstein'')] \<and>
   map_of [(''J. Epstein'', ''Jeffrey Epstein'')] ''J. Epstein'' = Some ''Jeffrey Epstein'' \<and>
   ''J. Epstein'' \<noteq> [] \<and> ''Jeffrey Epstein'' \<noteq> [] \<and>
   applyDedupe exampleConfig People (Str ''J. Epstein'') = Str ''Jeffrey Epstein'' \<and>
   map_of [(''J. Epstein'', ''Jeffrey Epstein'')] ''Ghislaine Maxwell'' = None \<and>
   ''Ghislaine Maxwell'' \<notin> set objectPrototypeNames \<and>
   applyDedupe exampleConfig People (Str ''Ghislaine Maxwell'') = Str ''Ghislaine Maxwell'' \<and>
   map_of (dedupeMappings exampleConfig) Locations = None \<and>
   applyDedupe exampleConfig Locations (Str ''Paris'') = Str ''Paris''"
proof -
  have m: "map_of (dedupeMappings exampleConfig) People = Some [(''J. Epstein'', ''Jeffrey Epstein'')]"
    and v: "map_of [(''J. Epstein'', ''Jeffrey Epstein'')] ''J. Epstein'' = Some ''Jeffrey Epstein''"
    and ne: "''J. Epstein'' \<noteq> []" "''Jeffrey Epstein'' \<noteq> []"
    and none: "map_of (dedupeMappings exampleConfig) Locations = None"
    and noentry: "map_of [(''J. Epstein'', ''Jeffrey Epstein'')] ''Ghislaine Maxwell'' = None"
    by (simp_all add: exampleConfig_def)
  have own: "''Ghislaine Maxwell'' \<notin> set objectPrototypeNames"
    by code_simp
  note mapped = applyDedupe_cases[of exampleConfig People "''J. Epstein''", THEN conjunct1,
      rule_format, OF m v ne]
  have "''Ghislaine Maxwell'' = [] \<or> map_of (dedupeMappings exampleConfig) People = None \<or>
    (\<exists>m. map_of (dedupeMappings exampleConfig) People = Some m \<and>
         (map_of m ''Ghislaine Maxwell'' = Some [] \<or>
          (map_of m ''Ghislaine Maxwell'' = None \<and> ''Ghislaine Maxwell'' \<notin> set objectPrototypeNames)))"
    by (intro disjI2 exI[of _ "[(''J. Epstein'', ''Jeffrey Epstein'')]"] conjI m noentry own)
  note unmapped = applyDedupe_cases[of exampleConfig People "''Ghislaine Maxwell''", THEN conjunct2,
      THEN conjunct1, THEN mp, OF this]
  have "''Paris'' = [] \<or> map_of (dedupeMappings exampleConfig) Locations = None \<or>
    (\<exists>m. map_of (dedupeMappings exampleConfig) Locations = Some m \<and>
         (map_of m ''Paris'' = Some [] \<or>
          (map_of m ''Paris'' = None \<and> ''Paris'' \<notin> set objectPrototypeNames)))"
    using none by (intro disjI2 disjI1)
  note same = applyDedupe_cases[of exampleConfig Locations "''Paris''", THEN conjunct2,
      THEN conjunct1, THEN mp, OF this]
  show ?thesis
    by (intro conjI m v ne mapped noentry own unmapped none same)
qed

subsection \<open>Unparseable dates\<close>

text \<open>
  In general: \<open>normalizeDate\<close> has no failing case, and a non-empty string whose trimmed
  form none of the six attempts accepts comes back trimmed.
\<close>

lemma normalizeDate_passthrough:
  assumes "s \<noteq> []" and "unrecognized (trim s)"
  shows "normalizeDate (Some s) = Some (trim s) \<and>
         (normalizeDate (Some s) = Some s \<longleftrightarrow> trim s = s) \<and>
         (\<forall>t. t \<noteq> [] \<longrightarrow> unrecognized (trim t) \<longrightarrow>
              (normalizeDate (Some t) = normalizeDate (Some s) \<longleftrightarrow> trim t = trim s)) \<and>
         (\<forall>v. v \<noteq> [] \<longrightarrow> (\<exists>r. normalizeDate (Some v) = Some r))"
proof -
  have pass: "normalizeDate (Some t) = Some (trim t)" if "t \<noteq> []" "unrecognized (trim t)" for t
    using that by (simp add: normalizeDate_def unrecognized_def Let_def)
  have total: "\<exists>r. normalizeDate (Some v) = Some r" if "v \<noteq> []" for v
    using that by (simp add: normalizeDate_def Let_def split: option.splits)
  show ?thesis
    using assms pass total by auto
qed

text \<open>
  Claim C7. The claim, and the comment on the last line of \<open>normalizeDate\<close> ("Couldn't
  parse - return original"), say that a date in none of the recognized formats is
  returned unchanged. The code returns \<open>str\<close>, the trimmed copy, so \<open>" circa 1999 "\<close> comes
  back as \<open>"circa 1999"\<close> and shares its key with a textually different date. And where the
  month word names an inherited property, as in \<open>"constructor 5, 2005"\<close>, which is in none
  of the formats either (the table of months has no such entry), the lookup in the table
  finds the inherited function and the date is rewritten.
\<close>

theorem normalizeDate_not_unchanged:
  "unrecognized (trim '' circa 1999 '') \<and>
   normalizeDate (Some '' circa 1999 '') = Some ''circa 1999'' \<and>
   normalizeDate (Some '' circa 1999 '') \<noteq> Some '' circa 1999 '' \<and>
   normalizeDate (Some '' circa 1999 '') = normalizeDate (Some ''circa 1999'') \<and>
   '' circa 1999 '' \<noteq> ''circa 1999'' \<and>
   match1 ''constructor 5, 2005'' = Some (''constructor'', ''5'', ''2005'') \<and>
   map_of months ''constructor'' = None \<and>
   normalizeDate (Some ''constructor 5, 2005'') =
     Some ''2005-function Object() { [native code] }-05''"
  by code_simp

subsection \<open>Sets, maps and sorting\<close>

lemma new_Set_snoc: "new_Set (xs @ [x]) = set_add (new_Set xs) x"
  by (simp add: new_Set_def)

lemma set_new_Set: "set (new_Set xs) = set xs"
  by (induction xs rule: rev_induct) (auto simp: new_Set_snoc set_add_def new_Set_def)

lemma distinct_new_Set: "distinct (new_Set xs)"
  by (induction xs rule: rev_induct) (auto simp: new_Set_snoc set_add_def new_Set_def)

lemma map_set_absent: "k \<notin> fst ` set m \<Longrightarrow> map_set m k v = m @ [(k, v)]"
  by (induction m) auto

lemma map_push_absent_snoc:
  "k \<notin> fst ` set m \<Longrightarrow> map_push (m @ [(k, vs)]) k v = m @ [(k, vs @ [v])]"
  by (induction m) auto

lemma map_push_keyed:
  "distinct ks \<Longrightarrow>
   map_push (map (\<lambda>k. (k, f k)) ks) k v = map (\<lambda>k'. (k', if k' = k then f k' @ [v] else f k')) ks"
  by (induction ks) auto

lemma map_has_iff: "map_has m k \<longleftrightarrow> k \<in> fst ` set m"
  by (simp add: map_has_def map_of_eq_None_iff)

text \<open>\<open>map_push\<close> is only ever called on a map that has the key.\<close>

lemma push_to_key_present: "map_has (if \<not> map_has m k then map_set m k [] else m) k"
  by (induction m) (auto simp: map_has_def)

lemma push_to_grouped: "push_to (grouped kvs) k v = grouped (kvs @ [(k, v)])"
proof (cases "k \<in> set (map fst kvs)")
  case True
  then have has: "map_has (grouped kvs) k"
    by (auto simp: map_has_iff grouped_def set_new_Set image_iff)
  have keys: "new_Set (map fst kvs @ [k]) = new_Set (map fst kvs)"
    using True by (simp add: new_Set_snoc set_add_def set_new_Set)
  show ?thesis
    unfolding push_to_def using has
    by (simp add: keys grouped_def map_push_keyed distinct_new_Set)
next
  case False
  then have nohas: "\<not> map_has (grouped kvs) k"
    by (auto simp: map_has_iff grouped_def set_new_Set image_iff)
  have absent: "k \<notin> fst ` set (grouped kvs)"
    using nohas by (simp add: map_has_iff)
  have keys: "new_Set (map fst kvs @ [k]) = new_Set (map fst kvs) @ [k]"
    using False by (simp add: new_Set_snoc set_add_def set_new_Set)
  have new: "filter (\<lambda>kv. fst kv = k) kvs = []"
    using False by (auto simp: filter_empty_conv)
  have "grouped (kvs @ [(k, v)]) = grouped kvs @ [(k, [v])]"
    unfolding grouped_def using False by (auto simp: keys new set_new_Set)
  then show ?thesis
    unfolding push_to_def using nohas
    by (simp add: map_set_absent[OF absent] map_push_absent_snoc[OF absent])
qed

lemma foldl_push_to:
  "foldl (\<lambda>m kv. push_to m (fst kv) (snd kv)) [] kvs = grouped kvs"
proof (induction kvs rule: rev_induct)
  case Nil
  show ?case by (simp add: grouped_def new_Set_def)
next
  case (snoc kv kvs)
  then show ?case by (cases kv) (simp add: push_to_grouped)
qed

lemma groupPage_push: "groupPage m pg = push_to m (groupKey pg) pg"
  by (simp add: groupPage_def groupKey_def js_or_def Let_def)

lemma documentMap_grouped: "documentMap ps = grouped (map (\<lambda>p. (groupKey p, p)) ps)"
proof -
  have "foldl groupPage [] ps = foldl (\<lambda>m kv. push_to m (fst kv) (snd kv)) [] (map (\<lambda>p. (groupKey p, p)) ps)"
    by (simp add: foldl_map groupPage_push[abs_def])
  then show ?thesis by (simp add: documentMap_def foldl_push_to)
qed

lemma documentMap_char:
  "documentMap ps = map (\<lambda>k. (k, filter (\<lambda>p. groupKey p = k) ps)) (new_Set (map groupKey ps))"
  by (simp add: documentMap_grouped grouped_def filter_map comp_def)

lemma mset_insert_sorted: "mset (insert_sorted cmp x ys) = add_mset x (mset ys)"
  by (induction ys) auto

lemma mset_js_sort: "mset (js_sort cmp xs) = mset xs"
  by (induction xs) (auto simp: js_sort_def mset_insert_sorted)

lemma set_js_sort: "set (js_sort cmp xs) = set xs"
  by (metis mset_js_sort set_mset_mset)

lemma insert_sorted_key:
  "insert_sorted (\<lambda>a b. f a - f b) x ys = insort_key f x ys" for f :: "'a \<Rightarrow> int"
  by (induction ys) auto

lemma js_sort_key: "js_sort (\<lambda>a b. f a - f b) xs = sort_key f xs" for f :: "'a \<Rightarrow> int"
  by (induction xs) (auto simp: js_sort_def sort_key_def insert_sorted_key)

lemma js_sort_comparePages: "js_sort comparePages xs = sort_key pageSortKey xs"
proof -
  have eq: "comparePages = (\<lambda>a b. pageSortKey a - pageSortKey b)"
    by (intro ext) (simp add: comparePages_def)
  show ?thesis unfolding eq by (rule js_sort_key)
qed

lemma collect_Inr: "collect (map Inr vs) = Inr vs"
  by (induction vs) auto

lemma toDocument_Inr:
  assumes "snd e \<noteq> []"
  shows "\<exists>d. toDocument cfg e = Inr d \<and> unique_id d = fst e \<and>
             pages d = sort_key pageSortKey (snd e) \<and> page_count d = length (snd e) \<and>
             document.entities d = deduplicatedEntities cfg (sort_key pageSortKey (snd e))"
proof -
  have "sort_key pageSortKey (snd e) \<noteq> []"
    using assms by (metis length_sort length_0_conv)
  then obtain p ps where "sort_key pageSortKey (snd e) = p # ps"
    by (cases "sort_key pageSortKey (snd e)") auto
  then show ?thesis
    by (simp add: toDocument_def js_sort_comparePages Let_def flip: length_sort[of pageSortKey "snd e"])
qed

lemma getDocuments_char:
  "\<exists>ds. getDocuments cfg ps = Inr ds \<and>
        map unique_id ds = new_Set (map groupKey ps) \<and>
        (\<forall>d\<in>set ds. pages d = sort_key pageSortKey (filter (\<lambda>p. groupKey p = unique_id d) ps) \<and>
                     page_count d = length (pages d) \<and>
                     document.entities d = deduplicatedEntities cfg (pages d))"
proof -
  define es where "es = documentMap ps"
  define ds where "ds = map (\<lambda>e. projr (toDocument cfg e)) es"
  have es: "es = map (\<lambda>k. (k, filter (\<lambda>p. groupKey p = k) ps)) (new_Set (map groupKey ps))"
    by (simp add: es_def documentMap_char)
  have nonempty: "snd e \<noteq> []" if "e \<in> set es" for e
  proof -
    from that obtain k where k: "k \<in> set (map groupKey ps)" and e: "e = (k, filter (\<lambda>p. groupKey p = k) ps)"
      by (auto simp: es set_new_Set)
    then show ?thesis by (auto simp: filter_empty_conv)
  qed
  have each: "toDocument cfg e = Inr (projr (toDocument cfg e))" if "e \<in> set es" for e
    using toDocument_Inr[OF nonempty[OF that], of cfg] by auto
  have "map (toDocument cfg) es = map (\<lambda>e. Inr (projr (toDocument cfg e))) es"
    by (rule map_cong[OF refl]) (rule each)
  then have "map (toDocument cfg) es = map Inr ds"
    by (simp add: ds_def comp_def)
  then have ret: "getDocuments cfg ps = Inr ds"
    by (simp add: getDocuments_def es_def[symmetric] collect_Inr)
  have props: "unique_id (projr (toDocument cfg e)) = fst e \<and>
               pages (projr (toDocument cfg e)) = sort_key pageSortKey (snd e) \<and>
               page_count (projr (toDocument cfg e)) = length (snd e) \<and>
               document.entities (projr (toDocument cfg e)) =
                 deduplicatedEntities cfg (sort_key pageSortKey (snd e))"
    if "e \<in> set es" for e
    using toDocument_Inr[OF nonempty[OF that], of cfg] by auto
  have ids: "map unique_id ds = new_Set (map groupKey ps)"
  proof -
    have "map unique_id ds = map fst es"
      by (simp add: ds_def props)
    then show ?thesis by (simp add: es comp_def)
  qed
  have "pages d = sort_key pageSortKey (filter (\<lambda>p. groupKey p = unique_id d) ps) \<and>
        page_count d = length (pages d) \<and>
        document.entities d = deduplicatedEntities cfg (pages d)" if "d \<in> set ds" for d
  proof -
    from that obtain e where e: "e \<in> set es" and d: "d = projr (toDocument cfg e)"
      by (auto simp: ds_def)
    from e have snd: "snd e = filter (\<lambda>p. groupKey p = fst e) ps"
      by (auto simp: es)
    show ?thesis
      using props[OF e] snd by (simp add: d)
  qed
  with ret ids show ?thesis by blast
qed

subsection \<open>Document Assembler\<close>

lemma distinct_ids:
  assumes "map unique_id ds = new_Set ks" "d \<in> set ds" "d' \<in> set ds" "unique_id d' = unique_id d"
  shows "d' = d"
proof -
  have "distinct (map unique_id ds)" using assms(1) by (simp add: distinct_new_Set)
  then have "inj_on unique_id (set ds)" by (simp add: distinct_map)
  then show ?thesis using assms(2-4) by (auto dest: inj_onD)
qed

lemma pages_set:
  assumes "pages d = sort_key pageSortKey (filter (\<lambda>p. groupKey p = unique_id d) ps)"
  shows "set (pages d) = {p \<in> set ps. groupKey p = unique_id d}"
  using assms by simp

lemma groupKey_present: "rawDocNum p = Some a \<Longrightarrow> a \<noteq> [] \<Longrightarrow> groupKey p = normalizeDocNum (Some a)"
  by (simp add: groupKey_def truthy_def)

text \<open>
  Claim C1. Two loaded pages whose document numbers are present and normalize to the
  same key are pages of one and the same document: the document whose \<open>unique_id\<close> is
  that key, and no other document holds either page.
\<close>

theorem same_key_same_document:
  assumes "p \<in> set ps" and "q \<in> set ps"
    and "rawDocNum p = Some a" and "a \<noteq> []"
    and "rawDocNum q = Some b" and "b \<noteq> []"
    and "normalizeDocNum (Some a) = normalizeDocNum (Some b)"
  shows "\<exists>ds d. getDocuments cfg ps = Inr ds \<and> d \<in> set ds \<and>
           unique_id d = normalizeDocNum (Some a) \<and> p \<in> set (pages d) \<and> q \<in> set (pages d) \<and>
           (\<forall>d'\<in>set ds. p \<in> set (pages d') \<or> q \<in> set (pages d') \<longrightarrow> d' = d)"
proof -
  obtain ds where ret: "getDocuments cfg ps = Inr ds"
    and ids: "map unique_id ds = new_Set (map groupKey ps)"
    and each: "\<And>d. d \<in> set ds \<Longrightarrow>
                 pages d = sort_key pageSortKey (filter (\<lambda>p. groupKey p = unique_id d) ps)"
    using getDocuments_char[of cfg ps] by blast
  have kp: "groupKey p = normalizeDocNum (Some a)" and kq: "groupKey q = normalizeDocNum (Some a)"
    using assms by (simp_all add: groupKey_present)
  have "normalizeDocNum (Some a) \<in> set (map unique_id ds)"
    using assms(1) kp[symmetric] by (simp add: ids set_new_Set)
  then obtain d where d: "d \<in> set ds" and uid: "unique_id d = normalizeDocNum (Some a)"
    by auto
  have mem: "p \<in> set (pages d)" "q \<in> set (pages d)"
    using assms(1,2) kp kq uid by (simp_all add: pages_set[OF each[OF d]])
  have "d' = d" if "d' \<in> set ds" and "p \<in> set (pages d') \<or> q \<in> set (pages d')" for d'
  proof -
    have "unique_id d' = unique_id d"
      using that(2) kp kq uid by (auto simp: pages_set[OF each[OF that(1)]])
    then show ?thesis by (rule distinct_ids[OF ids d that(1)])
  qed
  with ret d uid mem show ?thesis by blast
qed

theorem same_key_same_document_witness:
  "page1 \<in> set examplePages \<and> page2 \<in> set examplePages \<and>
   rawDocNum page1 = Some ''Doc #12-A'' \<and> ''Doc #12-A'' \<noteq> [] \<and>
   rawDocNum page2 = Some ''DOC 12 A'' \<and> ''DOC 12 A'' \<noteq> [] \<and>
   normalizeDocNum (Some ''Doc #12-A'') = normalizeDocNum (Some ''DOC 12 A'') \<and>
   (\<exists>ds d. getDocuments exampleConfig examplePages = Inr ds \<and> d \<in> set ds \<and>
      unique_id d = normalizeDocNum (Some ''Doc #12-A'') \<and>
      page1 \<in> set (pages d) \<and> page2 \<in> set (pages d) \<and>
      (\<forall>d'\<in>set ds. page1 \<in> set (pages d') \<or> page2 \<in> set (pages d') \<longrightarrow> d' = d))"
proof -
  have h1: "page1 \<in> set examplePages" and h2: "page2 \<in> set examplePages"
    by (simp_all add: examplePages_def)
  have h3: "rawDocNum page1 = Some ''Doc #12-A''" and h5: "rawDocNum page2 = Some ''DOC 12 A''"
    by (simp_all add: rawDocNum_def page1_def page2_def)
  have h4: "''Doc #12-A'' \<noteq> []" and h6: "''DOC 12 A'' \<noteq> []"
    by simp_all
  have h7: "normalizeDocNum (Some ''Doc #12-A'') = normalizeDocNum (Some ''DOC 12 A'')"
    by code_simp
  show ?thesis
    using same_key_same_document[OF h1 h2 h3 h4 h5 h6 h7, of exampleConfig] h1 h2 h3 h5 h7
    by simp
qed

lemma sum_mset_groups:
  "distinct ks \<Longrightarrow>
   (\<Sum>k\<leftarrow>ks. mset (filter (\<lambda>p. g p = k) ps)) = mset (filter (\<lambda>p. g p \<in> set ks) ps)"
proof (induction ks)
  case Nil
  show ?case by simp
next
  case (Cons k ks)
  have "mset (filter (\<lambda>p. g p = k) ps) + mset (filter (\<lambda>p. g p \<in> set ks) ps) =
        mset (filter (\<lambda>p. g p = k \<or> g p \<in> set ks) ps)"
    using Cons.prems by (induction ps) auto
  with Cons show ?case by simp
qed

text \<open>
  Claim C2. Assembly returns, and it partitions the loaded pages: the pages of all
  documents together are the loaded pages (as a multiset), the page counts add up to
  the number of loaded pages, every loaded page is a page of exactly one document, and
  the document of a page is the one keyed by its normalized document number, or, for a
  page without one, by its normalized file name, or by the file name itself when that
  normalizes to nothing.
\<close>

theorem pages_partitioned:
  "\<exists>ds. getDocuments cfg ps = Inr ds \<and>
        mset (concat (map pages ds)) = mset ps \<and>
        sum_list (map page_count ds) = length ps \<and>
        (\<forall>p\<in>set ps. \<exists>!d. d \<in> set ds \<and> p \<in> set (pages d)) \<and>
        (\<forall>d\<in>set ds. \<forall>p\<in>set (pages d).
           unique_id d =
             (if truthy (rawDocNum p) then normalizeDocNum (rawDocNum p)
              else if truthy (normalizeDocNum (Some (filename p)))
                   then normalizeDocNum (Some (filename p))
                   else Some (filename p)))"
proof -
  obtain ds where ret: "getDocuments cfg ps = Inr ds"
    and ids: "map unique_id ds = new_Set (map groupKey ps)"
    and each: "\<And>d. d \<in> set ds \<Longrightarrow>
                 pages d = sort_key pageSortKey (filter (\<lambda>p. groupKey p = unique_id d) ps)"
    and cnt: "\<And>d. d \<in> set ds \<Longrightarrow> page_count d = length (pages d)"
    using getDocuments_char[of cfg ps] by blast
  have "(\<Sum>d\<leftarrow>ds. mset (pages d)) = (\<Sum>d\<leftarrow>ds. mset (filter (\<lambda>p. groupKey p = unique_id d) ps))"
    by (rule arg_cong[where f = sum_list], rule map_cong[OF refl]) (simp add: each)
  also have "\<dots> = (\<Sum>k\<leftarrow>map unique_id ds. mset (filter (\<lambda>p. groupKey p = k) ps))"
    by (simp add: comp_def)
  also have "\<dots> = mset (filter (\<lambda>p. groupKey p \<in> set (new_Set (map groupKey ps))) ps)"
    unfolding ids by (rule sum_mset_groups) (rule distinct_new_Set)
  also have "\<dots> = mset ps"
    by (simp add: set_new_Set)
  finally have part: "mset (concat (map pages ds)) = mset ps"
    by (simp add: mset_concat comp_def)
  have "sum_list (map page_count ds) = sum_list (map (\<lambda>d. length (pages d)) ds)"
    by (rule arg_cong[where f = sum_list], rule map_cong[OF refl]) (simp add: cnt)
  also have "\<dots> = length (concat (map pages ds))"
    by (simp add: length_concat comp_def)
  also have "\<dots> = length ps"
    using part by (metis size_mset)
  finally have total: "sum_list (map page_count ds) = length ps" .
  have one: "\<exists>!d. d \<in> set ds \<and> p \<in> set (pages d)" if p: "p \<in> set ps" for p
  proof -
    have "groupKey p \<in> set (map unique_id ds)"
      using p by (simp add: ids set_new_Set)
    then obtain d where d: "d \<in> set ds" and uid: "unique_id d = groupKey p"
      by auto
    have mem: "p \<in> set (pages d)"
      using p uid by (simp add: pages_set[OF each[OF d]])
    have "d' = d" if "d' \<in> set ds \<and> p \<in> set (pages d')" for d'
    proof -
      have "unique_id d' = unique_id d"
        using that uid by (auto simp: pages_set[OF each])
      then show ?thesis using that by (intro distinct_ids[OF ids d]) auto
    qed
    with d mem show ?thesis by blast
  qed
  have key: "unique_id d =
             (if truthy (rawDocNum p) then normalizeDocNum (rawDocNum p)
              else if truthy (normalizeDocNum (Some (filename p)))
                   then normalizeDocNum (Some (filename p))
                   else Some (filename p))"
    if "d \<in> set ds" and "p \<in> set (pages d)" for d p
  proof -
    have "groupKey p = unique_id d"
      using that by (simp add: pages_set[OF each])
    then show ?thesis by (simp add: groupKey_def)
  qed
  from ret part total one key show ?thesis by blast
qed

theorem pages_partitioned_witness:
  "\<exists>ds. getDocuments exampleConfig examplePages = Inr ds \<and>
        mset (concat (map pages ds)) = mset [page1, page2, page3] \<and>
        sum_list (map page_count ds) = 3 \<and>
        (\<exists>!d. d \<in> set ds \<and> page3 \<in> set (pages d)) \<and>
        (\<exists>d. d \<in> set ds \<and> page3 \<in> set (pages d) \<and> unique_id d = Some ''scan-042'')"
proof -
  obtain ds where ret: "getDocuments exampleConfig examplePages = Inr ds"
    and part: "mset (concat (map pages ds)) = mset examplePages"
    and total: "sum_list (map page_count ds) = length examplePages"
    and one: "\<forall>p\<in>set examplePages. \<exists>!d. d \<in> set ds \<and> p \<in> set (pages d)"
    and key: "\<forall>d\<in>set ds. \<forall>p\<in>set (pages d).
           unique_id d =
             (if truthy (rawDocNum p) then normalizeDocNum (rawDocNum p)
              else if truthy (normalizeDocNum (Some (filename p)))
                   then normalizeDocNum (Some (filename p))
                   else Some (filename p))"
    using pages_partitioned[of exampleConfig examplePages] by blast
  have p3: "page3 \<in> set examplePages"
    by (simp add: examplePages_def)
  have k3: "(if truthy (rawDocNum page3) then normalizeDocNum (rawDocNum page3)
             else if truthy (normalizeDocNum (Some (filename page3)))
                  then normalizeDocNum (Some (filename page3))
                  else Some (filename page3)) = Some ''scan-042''"
    by code_simp
  from one p3 have ex1: "\<exists>!d. d \<in> set ds \<and> page3 \<in> set (pages d)"
    by blast
  then obtain d where d: "d \<in> set ds" "page3 \<in> set (pages d)"
    by blast
  with key k3 have "unique_id d = Some ''scan-042''"
    by metis
  with ret part total ex1 d show ?thesis
    by (auto simp: examplePages_def)
qed

lemma map_singleton: "map f xs = [y] \<Longrightarrow> \<exists>x. xs = [x] \<and> f x = y"
  by (cases xs) auto

text \<open>
  Claim C3, as stated, fails: a page without a page number has sort key 0, but it does
  not come first where another page of the document has a negative number.
\<close>

theorem missing_number_not_first_counterexample:
  "rawPageNumber unnumberedPage = None \<and> pageSortKey unnumberedPage = 0 \<and>
   pageSortKey negativePage = - 2 \<and>
   map_sum id (map pages) (getDocuments exampleConfig [unnumberedPage, negativePage]) =
     Inr [[negativePage, unnumberedPage]] \<and>
   map_sum id (map pages) (getDocuments exampleConfig [unnumberedPage, negativePage]) \<noteq>
     Inr [[unnumberedPage, negativePage]]"
  by code_simp

text \<open>
  Claim C3, amended. In every assembled document the pages are in ascending order of
  \<open>parseInt(page_number) || 0\<close>; the pages with one and the same sort key stand in the
  order in which they were loaded; a page whose number is missing or not numeric has
  sort key 0, and so it stands before every page with a positive number (not before a
  page with a negative one).
\<close>

theorem pages_sorted_stable:
  "\<exists>ds. getDocuments cfg ps = Inr ds \<and>
        (\<forall>d\<in>set ds.
           sorted (map pageSortKey (pages d)) \<and>
           (\<forall>n. filter (\<lambda>p. pageSortKey p = n) (pages d) =
                filter (\<lambda>p. pageSortKey p = n \<and> p \<in> set (pages d)) ps) \<and>
           (\<forall>p\<in>set (pages d). parseInt (rawPageNumber p) = None \<longrightarrow> pageSortKey p = 0) \<and>
           (\<forall>i j. i < length (pages d) \<longrightarrow> j < length (pages d) \<longrightarrow>
                  parseInt (rawPageNumber (pages d ! i)) = None \<longrightarrow>
                  0 < pageSortKey (pages d ! j) \<longrightarrow> i < j))"
proof -
  obtain ds where ret: "getDocuments cfg ps = Inr ds"
    and each: "\<And>d. d \<in> set ds \<Longrightarrow>
                 pages d = sort_key pageSortKey (filter (\<lambda>p. groupKey p = unique_id d) ps)"
    using getDocuments_char[of cfg ps] by blast
  have "sorted (map pageSortKey (pages d)) \<and>
        (\<forall>n. filter (\<lambda>p. pageSortKey p = n) (pages d) =
             filter (\<lambda>p. pageSortKey p = n \<and> p \<in> set (pages d)) ps) \<and>
        (\<forall>p\<in>set (pages d). parseInt (rawPageNumber p) = None \<longrightarrow> pageSortKey p = 0) \<and>
        (\<forall>i j. i < length (pages d) \<longrightarrow> j < length (pages d) \<longrightarrow>
               parseInt (rawPageNumber (pages d ! i)) = None \<longrightarrow>
               0 < pageSortKey (pages d ! j) \<longrightarrow> i < j)"
    if d: "d \<in> set ds" for d
  proof -
    have srt: "sorted (map pageSortKey (pages d))"
      by (simp add: each[OF d])
    have stable: "filter (\<lambda>p. pageSortKey p = n) (pages d) =
                  filter (\<lambda>p. pageSortKey p = n \<and> p \<in> set (pages d)) ps" for n
    proof -
      have "filter (\<lambda>p. pageSortKey p = n) (pages d) =
            filter (\<lambda>p. pageSortKey p = n) (filter (\<lambda>p. groupKey p = unique_id d) ps)"
        by (simp only: each[OF d] sort_key_stable)
      also have "\<dots> = filter (\<lambda>p. pageSortKey p = n \<and> p \<in> set (pages d)) ps"
        unfolding filter_filter by (rule filter_cong[OF refl]) (auto simp: pages_set[OF each[OF d]])
      finally show ?thesis .
    qed
    have zero: "\<forall>p\<in>set (pages d). parseInt (rawPageNumber p) = None \<longrightarrow> pageSortKey p = 0"
      by (simp add: pageSortKey_def)
    have before: "i < j"
      if i: "i < length (pages d)" and j: "j < length (pages d)"
        and none: "parseInt (rawPageNumber (pages d ! i)) = None"
        and pos: "0 < pageSortKey (pages d ! j)" for i j
    proof (rule ccontr)
      assume "\<not> i < j"
      then have "j \<le> i" by simp
      with srt i have "map pageSortKey (pages d) ! j \<le> map pageSortKey (pages d) ! i"
        by (intro sorted_nth_mono) simp_all
      with i j have "pageSortKey (pages d ! j) \<le> pageSortKey (pages d ! i)"
        by simp
      moreover have "pageSortKey (pages d ! i) = 0"
        using none by (simp add: pageSortKey_def)
      ultimately show False using pos by simp
    qed
    from srt stable zero before show ?thesis by blast
  qed
  with ret show ?thesis by blast
qed

text \<open>
  \<open>parseInt\<close> reads the longest prefix of digits after white space and a sign, and returns
  the double nearest to it: from \<open>2\<^sup>5\<^sup>3\<close> on, neighbouring page numbers are one key.
\<close>

lemma parseInt_examples:
  "parseInt (Some ''9007199254740993'') = Some 9007199254740992 \<and>
   parseInt (Some ''9007199254740992'') = Some 9007199254740992 \<and>
   parseInt (Some ''9007199254740995'') = Some 9007199254740996 \<and>
   parseInt (Some ''-2-'') = Some (- 2) \<and>
   parseInt (Some ''0x1F'') = Some 31 \<and>
   parseInt (Some ''page 4'') = None"
  by code_simp

lemma numbered_pages:
  "map_sum id (map pages) (getDocuments exampleConfig [thirdPage, unnumberedPage, negativePage]) =
     Inr [[negativePage, unnumberedPage, thirdPage]] \<and>
   parseInt (rawPageNumber unnumberedPage) = None \<and> 0 < pageSortKey thirdPage"
  by code_simp

theorem pages_sorted_stable_witness:
  "\<exists>ds d. getDocuments exampleConfig [thirdPage, unnumberedPage, negativePage] = Inr ds \<and>
          d \<in> set ds \<and> pages d = [negativePage, unnumberedPage, thirdPage] \<and>
          sorted (map pageSortKey (pages d)) \<and>
          filter (\<lambda>p. pageSortKey p = 0) (pages d) =
            filter (\<lambda>p. pageSortKey p = 0 \<and> p \<in> set (pages d))
              [thirdPage, unnumberedPage, negativePage] \<and>
          unnumberedPage \<in> set (pages d) \<and> parseInt (rawPageNumber unnumberedPage) = None \<and>
          pageSortKey unnumberedPage = 0 \<and>
          (1::nat) < length (pages d) \<and> (2::nat) < length (pages d) \<and>
          parseInt (rawPageNumber (pages d ! 1)) = None \<and> 0 < pageSortKey (pages d ! 2) \<and>
          (1::nat) < 2"
proof -
  obtain ds where ret: "getDocuments exampleConfig [thirdPage, unnumberedPage, negativePage] = Inr ds"
    and all: "\<forall>d\<in>set ds.
           sorted (map pageSortKey (pages d)) \<and>
           (\<forall>n. filter (\<lambda>p. pageSortKey p = n) (pages d) =
                filter (\<lambda>p. pageSortKey p = n \<and> p \<in> set (pages d))
                  [thirdPage, unnumberedPage, negativePage]) \<and>
           (\<forall>p\<in>set (pages d). parseInt (rawPageNumber p) = None \<longrightarrow> pageSortKey p = 0) \<and>
           (\<forall>i j. i < length (pages d) \<longrightarrow> j < length (pages d) \<longrightarrow>
                  parseInt (rawPageNumber (pages d ! i)) = None \<longrightarrow>
                  0 < pageSortKey (pages d ! j) \<longrightarrow> i < j)"
    using pages_sorted_stable[of exampleConfig "[thirdPage, unnumberedPage, negativePage]"]
    by (elim exE conjE)
  note ev = numbered_pages
  from ev[THEN conjunct1] ret
  have "map pages ds = [[negativePage, unnumberedPage, thirdPage]]"
    by simp
  then obtain d where d: "d \<in> set ds" and pd: "pages d = [negativePage, unnumberedPage, thirdPage]"
    using map_singleton[of pages ds] by force
  note props = all[rule_format, OF d]
  have none: "parseInt (rawPageNumber unnumberedPage) = None"
    by (rule ev[THEN conjunct2, THEN conjunct1])
  have pos: "0 < pageSortKey thirdPage"
    by (rule ev[THEN conjunct2, THEN conjunct2])
  have mem: "unnumberedPage \<in> set (pages d)"
    by (simp add: pd)
  have zero: "pageSortKey unnumberedPage = 0"
    using props mem none by blast
  have l1: "(1::nat) < length (pages d)" and l2: "(2::nat) < length (pages d)"
    and n1: "parseInt (rawPageNumber (pages d ! 1)) = None" and p2: "0 < pageSortKey (pages d ! 2)"
    using none pos by (simp_all add: pd)
  have lt: "(1::nat) < 2"
    using props l1 l2 n1 p2 by blast
  have srt: "sorted (map pageSortKey (pages d))"
    using props by blast
  have st: "filter (\<lambda>p. pageSortKey p = 0) (pages d) =
            filter (\<lambda>p. pageSortKey p = 0 \<and> p \<in> set (pages d))
              [thirdPage, unnumberedPage, negativePage]"
    using props by blast
  show ?thesis
    by (rule exI[of _ ds], rule exI[of _ d])
      (intro conjI ret d pd srt st mem none zero l1 l2 n1 p2 lt)
qed

lemma set_allEntities: "set (allEntities ps key) = (\<Union>p\<in>set ps. set (pageEntities key p))"
  by (simp add: allEntities_def set_new_Set)

lemma deduplicatedEntities_lookup:
  assumes "key \<in> {People, Organizations, Locations}"
  shows "map_of (deduplicatedEntities cfg ps) key =
           Some (new_Set (map (applyDedupe cfg key) (allEntities ps key)))"
  using assms by (auto simp: deduplicatedEntities_def)

lemma example_people:
  "map_sum id (map (\<lambda>d. map_of (document.entities d) People))
     (getDocuments exampleConfig examplePages) = Inr [Some [Str ''Jeffrey Epstein''], Some []]"
  by code_simp

text \<open>
  Claim C4. For people, organizations and locations, the entity list stored in an
  assembled document has no duplicates and is, as a set, the image under \<open>applyDedupe\<close> of
  the union of the raw lists of the document's pages; loading the pages in another order
  gives a document with the same \<open>unique_id\<close> and the same set of entities; and the
  mapping of \<open>J. Epstein\<close> to \<open>Jeffrey Epstein\<close> turns the raw list
  \<open>["J. Epstein", "Jeffrey Epstein"]\<close> into \<open>["Jeffrey Epstein"]\<close>.
\<close>

theorem entities_canonical_union:
  assumes "key \<in> {People, Organizations, Locations}"
  shows "\<exists>ds. getDocuments cfg ps = Inr ds \<and>
           (\<forall>d\<in>set ds. \<exists>xs. map_of (document.entities d) key = Some xs \<and> distinct xs \<and>
               set xs = applyDedupe cfg key ` (\<Union>p\<in>set (pages d). set (pageEntities key p))) \<and>
           (\<forall>ps'. mset ps' = mset ps \<longrightarrow>
              (\<exists>ds'. getDocuments cfg ps' = Inr ds' \<and>
                 (\<forall>d\<in>set ds. \<exists>d'\<in>set ds'. unique_id d' = unique_id d \<and>
                    set (pages d') = set (pages d) \<and>
                    map_option set (map_of (document.entities d') key) =
                      map_option set (map_of (document.entities d) key)))) \<and>
           map_sum id (map (\<lambda>d. map_of (document.entities d) People))
             (getDocuments exampleConfig examplePages) = Inr [Some [Str ''Jeffrey Epstein''], Some []]"
proof -
  have stored: "map_of (document.entities d) key =
                  Some (new_Set (map (applyDedupe cfg key) (allEntities (pages d) key)))"
    if "document.entities d = deduplicatedEntities cfg (pages d)" for d
    using that assms by (simp add: deduplicatedEntities_lookup)
  obtain ds where ret: "getDocuments cfg ps = Inr ds"
    and ids: "map unique_id ds = new_Set (map groupKey ps)"
    and each: "\<And>d. d \<in> set ds \<Longrightarrow>
                 pages d = sort_key pageSortKey (filter (\<lambda>p. groupKey p = unique_id d) ps)"
    and ents: "\<And>d. d \<in> set ds \<Longrightarrow> document.entities d = deduplicatedEntities cfg (pages d)"
    using getDocuments_char[of cfg ps] by blast
  have one: "\<exists>xs. map_of (document.entities d) key = Some xs \<and> distinct xs \<and>
               set xs = applyDedupe cfg key ` (\<Union>p\<in>set (pages d). set (pageEntities key p))"
    if d: "d \<in> set ds" for d
    by (simp add: stored[OF ents[OF d]] distinct_new_Set set_new_Set set_allEntities)
  have perm: "\<exists>ds'. getDocuments cfg ps' = Inr ds' \<and>
                 (\<forall>d\<in>set ds. \<exists>d'\<in>set ds'. unique_id d' = unique_id d \<and>
                    set (pages d') = set (pages d) \<and>
                    map_option set (map_of (document.entities d') key) =
                      map_option set (map_of (document.entities d) key))"
    if eq: "mset ps' = mset ps" for ps'
  proof -
    have sets: "set ps' = set ps"
      using eq by (rule mset_eq_setD)
    obtain ds' where ret': "getDocuments cfg ps' = Inr ds'"
      and ids': "map unique_id ds' = new_Set (map groupKey ps')"
      and each': "\<And>d. d \<in> set ds' \<Longrightarrow>
                   pages d = sort_key pageSortKey (filter (\<lambda>p. groupKey p = unique_id d) ps')"
      and ents': "\<And>d. d \<in> set ds' \<Longrightarrow> document.entities d = deduplicatedEntities cfg (pages d)"
      using getDocuments_char[of cfg ps'] by blast
    have "\<exists>d'\<in>set ds'. unique_id d' = unique_id d \<and> set (pages d') = set (pages d) \<and>
            map_option set (map_of (document.entities d') key) =
              map_option set (map_of (document.entities d) key)"
      if d: "d \<in> set ds" for d
    proof -
      have "unique_id d \<in> set (map unique_id ds)"
        using d by simp
      then have "unique_id d \<in> set (map unique_id ds')"
        by (simp add: ids ids' set_new_Set sets)
      then obtain d' where d': "d' \<in> set ds'" and uid: "unique_id d' = unique_id d"
        by auto
      have pg: "set (pages d') = set (pages d)"
        by (simp add: pages_set[OF each[OF d]] pages_set[OF each'[OF d']] sets uid)
      have "map_option set (map_of (document.entities d') key) =
              map_option set (map_of (document.entities d) key)"
        by (simp add: stored[OF ents[OF d]] stored[OF ents'[OF d']] set_new_Set
            set_allEntities pg)
      with d' uid pg show ?thesis by blast
    qed
    with ret' show ?thesis by blast
  qed
  show ?thesis
    apply (rule exI[of _ ds])
    apply (intro conjI ballI allI impI)
       apply (rule ret)
      apply (erule one)
     apply (erule perm)
    apply (rule example_people)
    done
qed

theorem entities_canonical_union_witness:
  "People \<in> {People, Organizations, Locations} \<and>
   (\<exists>ds d. getDocuments exampleConfig examplePages = Inr ds \<and> d \<in> set ds \<and>
      map_of (document.entities d) People = Some [Str ''Jeffrey Epstein''] \<and>
      set [Str ''Jeffrey Epstein''] =
        applyDedupe exampleConfig People ` (\<Union>p\<in>set (pages d). set (pageEntities People p)) \<and>
      mset [page3, page2, page1] = mset examplePages \<and>
      (\<exists>ds' d'. getDocuments exampleConfig [page3, page2, page1] = Inr ds' \<and> d' \<in> set ds' \<and>
         unique_id d' = unique_id d \<and>
         map_option set (map_of (document.entities d') People) = Some {Str ''Jeffrey Epstein''}))"
proof -
  have key: "People \<in> {People, Organizations, Locations}"
    by simp
  have eq: "mset [page3, page2, page1] = mset examplePages"
    by (simp add: examplePages_def)
  obtain ds where ret: "getDocuments exampleConfig examplePages = Inr ds"
    and one: "\<forall>d\<in>set ds. \<exists>xs. map_of (document.entities d) People = Some xs \<and> distinct xs \<and>
               set xs = applyDedupe exampleConfig People `
                 (\<Union>p\<in>set (pages d). set (pageEntities People p))"
    and perm: "\<forall>ps'. mset ps' = mset examplePages \<longrightarrow>
              (\<exists>ds'. getDocuments exampleConfig ps' = Inr ds' \<and>
                 (\<forall>d\<in>set ds. \<exists>d'\<in>set ds'. unique_id d' = unique_id d \<and>
                    set (pages d') = set (pages d) \<and>
                    map_option set (map_of (document.entities d') People) =
                      map_option set (map_of (document.entities d) People)))"
    and ex: "map_sum id (map (\<lambda>d. map_of (document.entities d) People))
             (getDocuments exampleConfig examplePages) = Inr [Some [Str ''Jeffrey Epstein''], Some []]"
    using entities_canonical_union[OF key, of exampleConfig examplePages] by blast
  from ex ret have "map (\<lambda>d. map_of (document.entities d) People) ds =
                      [Some [Str ''Jeffrey Epstein''], Some []]"
    by simp
  then have "\<exists>d. d \<in> set ds \<and> map_of (document.entities d) People = Some [Str ''Jeffrey Epstein'']"
    by (auto simp: map_eq_Cons_conv)
  then obtain d where d: "d \<in> set ds"
    and stored: "map_of (document.entities d) People = Some [Str ''Jeffrey Epstein'']"
    by blast
  from one d obtain xs where xs: "map_of (document.entities d) People = Some xs"
    and img0: "set xs =
        applyDedupe exampleConfig People ` (\<Union>p\<in>set (pages d). set (pageEntities People p))"
    by blast
  from xs stored have "xs = [Str ''Jeffrey Epstein'']"
    by simp
  with img0 have img: "set [Str ''Jeffrey Epstein''] =
        applyDedupe exampleConfig People ` (\<Union>p\<in>set (pages d). set (pageEntities People p))"
    by simp
  from perm eq obtain ds' where ret': "getDocuments exampleConfig [page3, page2, page1] = Inr ds'"
    and same: "\<forall>d\<in>set ds. \<exists>d'\<in>set ds'. unique_id d' = unique_id d \<and>
                    set (pages d') = set (pages d) \<and>
                    map_option set (map_of (document.entities d') People) =
                      map_option set (map_of (document.entities d) People)"
    by blast
  from same d obtain d' where d': "d' \<in> set ds'" and uid': "unique_id d' = unique_id d"
    and ent': "map_option set (map_of (document.entities d') People) =
                 map_option set (map_of (document.entities d) People)"
    by blast
  from ent' stored
  have set': "map_option set (map_of (document.entities d') People) = Some {Str ''Jeffrey Epstein''}"
    by simp
  have inner: "\<exists>ds' d'. getDocuments exampleConfig [page3, page2, page1] = Inr ds' \<and> d' \<in> set ds' \<and>
         unique_id d' = unique_id d \<and>
         map_option set (map_of (document.entities d') People) = Some {Str ''Jeffrey Epstein''}"
    by (rule exI[of _ ds'], rule exI[of _ d']) (intro conjI ret' d' uid' set')
  have "\<exists>ds d. getDocuments exampleConfig examplePages = Inr ds \<and> d \<in> set ds \<and>
      map_of (document.entities d) People = Some [Str ''Jeffrey Epstein''] \<and>
      set [Str ''Jeffrey Epstein''] =
        applyDedupe exampleConfig People ` (\<Union>p\<in>set (pages d). set (pageEntities People p)) \<and>
      mset [page3, page2, page1] = mset examplePages \<and>
      (\<exists>ds' d'. getDocuments exampleConfig [page3, page2, page1] = Inr ds' \<and> d' \<in> set ds' \<and>
         unique_id d' = unique_id d \<and>
         map_option set (map_of (document.entities d') People) = Some {Str ''Jeffrey Epstein''})"
    by (rule exI[of _ ds], rule exI[of _ d]) (intro conjI ret d stored img eq inner)
  with key show ?thesis
    by (rule conjI)
qed

subsection \<open>Index Builder\<close>

lemma foldl_foldl_concat: "foldl (\<lambda>m d. foldl f m (g d)) m ds = foldl f m (concat (map g ds))"
  by (induction ds arbitrary: m) simp_all

lemma indexEntity_pushes:
  "indexEntity cfg key m doc =
     foldl (\<lambda>m kv. push_to m (fst kv) (snd kv)) m (entityPushes cfg key doc)"
  by (simp add: indexEntity_def entityPushes_def foldl_map split: option.splits)

lemma foldl_date_items:
  "foldl (\<lambda>acc item. (case normalizeDate (Some (jsString item)) of
                        None \<Rightarrow> acc
                      | Some normalized \<Rightarrow>
                          if normalized \<noteq> [] then push_to acc normalized doc else acc)) m items =
   foldl (\<lambda>m kv. push_to m (fst kv) (snd kv)) m
     (concat (map (\<lambda>item. (case normalizeDate (Some (jsString item)) of
                             None \<Rightarrow> []
                           | Some normalized \<Rightarrow>
                               if normalized \<noteq> [] then [(normalized, doc)] else [])) items))"
  by (induction items arbitrary: m) (simp_all split: option.splits)

lemma indexDate_pushes:
  "indexDate m doc = foldl (\<lambda>m kv. push_to m (fst kv) (snd kv)) m (datePushes doc)"
  by (simp add: indexDate_def datePushes_def foldl_date_items split: option.splits)

lemma entity_map_grouped:
  "foldl (indexEntity cfg key) [] ds = grouped (concat (map (entityPushes cfg key) ds))"
proof -
  have eq: "indexEntity cfg key =
        (\<lambda>m doc. foldl (\<lambda>m kv. push_to m (fst kv) (snd kv)) m (entityPushes cfg key doc))"
    by (intro ext) (rule indexEntity_pushes)
  show ?thesis
    unfolding eq by (simp only: foldl_foldl_concat foldl_push_to)
qed

lemma date_map_grouped: "foldl indexDate [] ds = grouped (concat (map datePushes ds))"
proof -
  have eq: "indexDate = (\<lambda>m doc. foldl (\<lambda>m kv. push_to m (fst kv) (snd kv)) m (datePushes doc))"
    by (intro ext) (rule indexDate_pushes)
  show ?thesis
    unfolding eq by (simp only: foldl_foldl_concat foldl_push_to)
qed

text \<open>
  The \<open>indices\<close> global data is the index of the assembled documents. An index, when it is
  built, has the five lists below; it is built unless the normalization of a document
  type raises.
\<close>

lemma indicesData_eq:
  "\<exists>ds. getDocuments cfg ps = Inr ds \<and>
        indicesData localeCompare cfg ps = buildIndices localeCompare cfg ds"
  using getDocuments_char[of cfg ps] by (auto simp: indicesData_def)

lemma buildIndices_Inr:
  assumes "buildIndices localeCompare cfg ds = Inr idx"
  shows "people idx = entityBuckets (foldl (indexEntity cfg People) [] ds)"
    and "organizations idx = entityBuckets (foldl (indexEntity cfg Organizations) [] ds)"
    and "locations idx = entityBuckets (foldl (indexEntity cfg Locations) [] ds)"
    and "dates idx = dateBuckets localeCompare (foldl indexDate [] ds)"
    and "\<exists>m. documentTypes idx = typeBuckets cfg m"
  using assms by (auto simp: buildIndices_def split: sum.splits)

lemma foldlE_returns:
  assumes "\<And>s x. x \<in> set xs \<Longrightarrow> \<exists>s'. f s x = Inr s'"
  shows "\<exists>r. foldlE f s xs = Inr r"
  using assms
proof (induction xs arbitrary: s)
  case Nil
  show ?case by simp
next
  case (Cons x xs)
  from Cons.prems[of x s] obtain s' where "f s x = Inr s'"
    by auto
  moreover have "\<exists>r. foldlE f s' xs = Inr r"
    by (rule Cons.IH) (simp add: Cons.prems)
  ultimately show ?case by simp
qed

lemma buildIndices_returns:
  assumes "\<And>d. d \<in> set ds \<Longrightarrow>
             normalizeDocType cfg (document_type (document.document_metadata d)) \<noteq> Inl TypeError"
  shows "\<exists>idx. buildIndices localeCompare cfg ds = Inr idx"
proof -
  have "\<exists>s'. indexDocType cfg s d = Inr s'" if "d \<in> set ds" for s d
  proof (cases "normalizeDocType cfg (document_type (document.document_metadata d))")
    case (Inl e)
    with assms[OF that] show ?thesis by (cases e) simp
  next
    case (Inr r)
    then show ?thesis
      by (cases r) (simp_all add: indexDocType_def Let_def)
  qed
  then obtain m where "foldlE (indexDocType cfg) [] ds = Inr m"
    using foldlE_returns[of ds "indexDocType cfg" "[]"] by blast
  then show ?thesis
    by (simp add: buildIndices_def)
qed

lemma grouped_entry:
  assumes "e \<in> set (grouped kvs)"
  shows "fst e \<in> fst ` set kvs \<and> snd e = map snd (filter (\<lambda>kv. fst kv = fst e) kvs)"
  using assms by (force simp: grouped_def set_new_Set)

lemma dedupeFilter_props:
  "distinct (map unique_id (dedupeFilter seen ds)) \<and>
   unique_id ` set (dedupeFilter seen ds) = unique_id ` set ds - set seen \<and>
   set (dedupeFilter seen ds) \<subseteq> set ds"
proof (induction ds arbitrary: seen)
  case Nil
  show ?case by simp
next
  case (Cons doc ds)
  show ?case
  proof (cases "unique_id doc \<in> set seen")
    case True
    with Cons[of seen] show ?thesis by auto
  next
    case False
    with Cons[of "set_add seen (unique_id doc)"] show ?thesis
      by (auto simp: set_add_def)
  qed
qed

lemma dedupeDocArray_distinct: "distinct (map unique_id (dedupeDocArray ds))"
  using dedupeFilter_props[of "[]" ds] by (simp add: dedupeDocArray_def)

lemma dedupeDocArray_ids: "unique_id ` set (dedupeDocArray ds) = unique_id ` set ds"
  using dedupeFilter_props[of "[]" ds] by (simp add: dedupeDocArray_def)

lemma dedupeDocArray_subset: "set (dedupeDocArray ds) \<subseteq> set ds"
  using dedupeFilter_props[of "[]" ds] by (simp add: dedupeDocArray_def)

lemma dedupeDocArray_length: "length (dedupeDocArray ds) = card (unique_id ` set ds)"
proof -
  have "length (dedupeDocArray ds) = length (map unique_id (dedupeDocArray ds))"
    by simp
  also have "\<dots> = card (set (map unique_id (dedupeDocArray ds)))"
    by (rule distinct_card[symmetric]) (rule dedupeDocArray_distinct)
  also have "\<dots> = card (unique_id ` set ds)"
    by (simp add: dedupeDocArray_ids)
  finally show ?thesis .
qed

lemma entityBuckets_entry:
  assumes "b \<in> set (entityBuckets m)"
  shows "\<exists>e\<in>set m. name b = fst e \<and> docs b = dedupeDocArray (snd e) \<and>
           count b = length (dedupeDocArray (snd e))"
  using assms by (force simp: entityBuckets_def set_js_sort)

lemma typeBuckets_entry:
  assumes "b \<in> set (typeBuckets cfg m)"
  shows "\<exists>e\<in>set m. docs b = dedupeDocArray (snd e) \<and> count b = length (dedupeDocArray (snd e))"
  using assms by (force simp: typeBuckets_def set_js_sort)

lemma dateBuckets_entry:
  assumes "b \<in> set (dateBuckets localeCompare m)"
  shows "\<exists>e\<in>set m. normalizedDate b = fst e \<and> docs b = dedupeDocArray (snd e) \<and>
           count b = length (dedupeDocArray (snd e))"
  using assms by (force simp: dateBuckets_def set_js_sort)

lemma deduped_counts:
  assumes "docs b = dedupeDocArray xs" and "count b = length (dedupeDocArray xs)"
  shows "count b = card (unique_id ` set (docs b)) \<and> count b = length (docs b) \<and>
         distinct (map unique_id (docs b)) \<and> unique_id ` set (docs b) = unique_id ` set xs"
  using assms by (simp add: dedupeDocArray_length dedupeDocArray_ids dedupeDocArray_distinct)

lemma entity_bucket_ids:
  assumes "b \<in> set (entityBuckets (foldl (indexEntity cfg key) [] ds))"
  shows "unique_id ` set (docs b) =
         unique_id ` {d \<in> set ds. \<exists>items. map_of (document.entities d) key = Some items \<and>
                                     name b \<in> applyDedupe cfg key ` set items}"
proof -
  define kvs where "kvs = concat (map (entityPushes cfg key) ds)"
  from entityBuckets_entry[OF assms] obtain e
    where e: "e \<in> set (grouped kvs)" and nm: "name b = fst e"
      and dc: "docs b = dedupeDocArray (snd e)"
    by (auto simp: entity_map_grouped kvs_def)
  have snd: "snd e = map snd (filter (\<lambda>kv. fst kv = name b) kvs)"
    using grouped_entry[OF e] nm by simp
  have "set (snd e) = {d \<in> set ds. \<exists>items. map_of (document.entities d) key = Some items \<and>
                                     name b \<in> applyDedupe cfg key ` set items}"
  proof (intro set_eqI iffI)
    fix d
    assume "d \<in> set (snd e)"
    then obtain k where "(k, d) \<in> set kvs" and "k = name b"
      unfolding snd by auto
    then obtain d0 where d0: "d0 \<in> set ds" and kd: "(name b, d) \<in> set (entityPushes cfg key d0)"
      unfolding kvs_def by auto
    then obtain items where "map_of (document.entities d0) key = Some items"
      and "(name b, d) \<in> (\<lambda>item. (applyDedupe cfg key item, d0)) ` set items"
      by (cases "map_of (document.entities d0) key") (auto simp: entityPushes_def)
    with d0 show "d \<in> {d \<in> set ds. \<exists>items. map_of (document.entities d) key = Some items \<and>
                                     name b \<in> applyDedupe cfg key ` set items}"
      by auto
  next
    fix d
    assume "d \<in> {d \<in> set ds. \<exists>items. map_of (document.entities d) key = Some items \<and>
                                     name b \<in> applyDedupe cfg key ` set items}"
    then obtain items where d: "d \<in> set ds" and it: "map_of (document.entities d) key = Some items"
      and nb: "name b \<in> applyDedupe cfg key ` set items"
      by auto
    from it nb have "(name b, d) \<in> set (entityPushes cfg key d)"
      by (auto simp: entityPushes_def)
    with d have "(name b, d) \<in> set kvs"
      unfolding kvs_def by auto
    then show "d \<in> set (snd e)"
      unfolding snd by force
  qed
  then show ?thesis
    by (simp add: dc dedupeDocArray_ids)
qed

text \<open>
  Claim C5. In each of the five indices, the \<open>count\<close> of a bucket is the number of
  distinct \<open>unique_id\<close> values among its \<open>docs\<close>, which is also the length of \<open>docs\<close>, since
  \<open>docs\<close> holds no \<open>unique_id\<close> twice; and in the people, organizations and locations
  indices the documents of a bucket are, by \<open>unique_id\<close>, the documents with an entity whose
  canonical name is the bucket's name, however often they name it.
\<close>

theorem bucket_counts:
  assumes "buildIndices localeCompare cfg ds = Inr idx"
  shows "(\<forall>b\<in>set (people idx) \<union> set (organizations idx) \<union> set (locations idx) \<union>
             set (documentTypes idx).
            count b = card (unique_id ` set (docs b)) \<and> count b = length (docs b) \<and>
            distinct (map unique_id (docs b))) \<and>
         (\<forall>b\<in>set (dates idx).
            count b = card (unique_id ` set (docs b)) \<and> count b = length (docs b) \<and>
            distinct (map unique_id (docs b))) \<and>
         (\<forall>b\<in>set (people idx).
            unique_id ` set (docs b) =
            unique_id ` {d \<in> set ds. \<exists>items. map_of (document.entities d) People = Some items \<and>
                                        name b \<in> applyDedupe cfg People ` set items}) \<and>
         (\<forall>b\<in>set (organizations idx).
            unique_id ` set (docs b) =
            unique_id ` {d \<in> set ds. \<exists>items. map_of (document.entities d) Organizations = Some items \<and>
                                        name b \<in> applyDedupe cfg Organizations ` set items}) \<and>
         (\<forall>b\<in>set (locations idx).
            unique_id ` set (docs b) =
            unique_id ` {d \<in> set ds. \<exists>items. map_of (document.entities d) Locations = Some items \<and>
                                        name b \<in> applyDedupe cfg Locations ` set items})"
proof -
  note parts = buildIndices_Inr[OF assms]
  obtain tm where c6: "documentTypes idx = typeBuckets cfg tm"
    using parts(5) by blast
  have ent: "count b = card (unique_id ` set (docs b)) \<and> count b = length (docs b) \<and>
             distinct (map unique_id (docs b))"
    if "b \<in> set (entityBuckets m)" for b m
    using entityBuckets_entry[OF that] deduped_counts by blast
  have tys: "count b = card (unique_id ` set (docs b)) \<and> count b = length (docs b) \<and>
             distinct (map unique_id (docs b))"
    if "b \<in> set (typeBuckets cfg m)" for b m
    using typeBuckets_entry[OF that] deduped_counts by blast
  have dat: "count b = card (unique_id ` set (docs b)) \<and> count b = length (docs b) \<and>
             distinct (map unique_id (docs b))"
    if "b \<in> set (dateBuckets localeCompare m)" for b m
    using dateBuckets_entry[OF that] deduped_counts[of b] by blast
  have ids: "\<forall>b\<in>set (entityBuckets (foldl (indexEntity cfg key) [] ds)).
            unique_id ` set (docs b) =
            unique_id ` {d \<in> set ds. \<exists>items. map_of (document.entities d) key = Some items \<and>
                                        name b \<in> applyDedupe cfg key ` set items}" for key
    using entity_bucket_ids by blast
  have c1: "\<forall>b\<in>set (people idx) \<union> set (organizations idx) \<union> set (locations idx) \<union>
             set (documentTypes idx).
            count b = card (unique_id ` set (docs b)) \<and> count b = length (docs b) \<and>
            distinct (map unique_id (docs b))"
    unfolding parts(1-3) c6 using ent tys by auto
  have c2: "\<forall>b\<in>set (dates idx).
            count b = card (unique_id ` set (docs b)) \<and> count b = length (docs b) \<and>
            distinct (map unique_id (docs b))"
    unfolding parts(4) by (intro ballI, erule dat)
  show ?thesis
    by (intro conjI c1 c2 ids[of People, folded parts(1)] ids[of Organizations, folded parts(2)]
        ids[of Locations, folded parts(3)])
qed

lemma map_sum_Inr: "map_sum f g x = Inr y \<Longrightarrow> \<exists>z. x = Inr z \<and> g z = y"
  by (cases x) auto

lemma chain_people:
  "map_sum id (\<lambda>idx. map (\<lambda>b. (name b, count b)) (people idx))
     (buildIndices codeUnitCompare chainConfig chainDocs) = Inr [(Str ''C'', 1)]"
  by code_simp

lemma chain_mentions:
  "length (filter (\<lambda>kv. fst kv = Str ''C'')
             (concat (map (entityPushes chainConfig People) chainDocs))) = 2"
  by code_simp

theorem bucket_counts_witness:
  "\<exists>idx b. buildIndices codeUnitCompare chainConfig chainDocs = Inr idx \<and>
        b \<in> set (people idx) \<and> name b = Str ''C'' \<and> count b = 1 \<and>
        count b = card (unique_id ` set (docs b)) \<and> count b = length (docs b) \<and>
        distinct (map unique_id (docs b)) \<and>
        length (filter (\<lambda>kv. fst kv = Str ''C'')
                  (concat (map (entityPushes chainConfig People) chainDocs))) = 2"
proof -
  obtain idx where ret: "buildIndices codeUnitCompare chainConfig chainDocs = Inr idx"
    and ev: "map (\<lambda>b. (name b, count b)) (people idx) = [(Str ''C'', 1)]"
    using map_sum_Inr[OF chain_people] by (elim exE conjE)
  obtain b where pb: "people idx = [b]"
    and nc: "(name b, count b) = (Str ''C'', 1)"
    using map_singleton[OF ev] by (elim exE conjE)
  have b: "b \<in> set (people idx)"
    by (simp add: pb)
  have nm: "name b = Str ''C''" and one: "count b = 1"
    using nc by simp_all
  have mem: "b \<in> set (people idx) \<union> set (organizations idx) \<union> set (locations idx) \<union>
                 set (documentTypes idx)"
    using b by simp
  note all = bucket_counts[OF ret, THEN conjunct1, rule_format, OF mem]
  show ?thesis
    by (rule exI[of _ idx], rule exI[of _ b])
      (intro conjI ret b nm one chain_mentions all[THEN conjunct1]
        all[THEN conjunct2, THEN conjunct1] all[THEN conjunct2, THEN conjunct2])
qed

lemma set_insert_sorted: "set (insert_sorted cmp x ys) = insert x (set ys)"
  by (induction ys) auto

lemma sorted_insert_sorted:
  fixes key :: "'a \<Rightarrow> 'b::linorder"
  assumes cmp: "\<And>x y. cmp x y \<le> 0 \<longleftrightarrow> key y \<le> key x"
    and "sorted_wrt (\<lambda>a b. key b \<le> key a) ys"
  shows "sorted_wrt (\<lambda>a b. key b \<le> key a) (insert_sorted cmp x ys)"
  using assms(2)
proof (induction ys)
  case Nil
  show ?case by simp
next
  case (Cons y ys)
  show ?case
  proof (cases "cmp x y \<le> 0")
    case True
    then have "key y \<le> key x" by (simp add: cmp)
    with Cons.prems True show ?thesis by (auto intro: order_trans)
  next
    case False
    then have "key x \<le> key y" using cmp[of x y] by simp
    with Cons False show ?thesis by (auto simp: set_insert_sorted)
  qed
qed

lemma sorted_js_sort:
  fixes key :: "'a \<Rightarrow> 'b::linorder"
  assumes "\<And>x y. cmp x y \<le> 0 \<longleftrightarrow> key y \<le> key x"
  shows "sorted_wrt (\<lambda>a b. key b \<le> key a) (js_sort cmp xs)"
  by (induction xs) (simp_all add: js_sort_def sorted_insert_sorted[OF assms])

lemma sorted_byCount: "sorted_wrt (\<lambda>a b. count b \<le> count a) (js_sort byCount xs)"
  by (rule sorted_js_sort) (simp add: byCount_def)

lemma sorted_insert_cmp:
  assumes total: "\<And>x y. cmp x y \<le> 0 \<or> cmp y x \<le> 0"
    and trans: "\<And>x y z. cmp x y \<le> 0 \<Longrightarrow> cmp y z \<le> 0 \<Longrightarrow> cmp x z \<le> 0"
    and "sorted_wrt (\<lambda>a b. cmp a b \<le> 0) ys"
  shows "sorted_wrt (\<lambda>a b. cmp a b \<le> 0) (insert_sorted cmp x ys)"
  using assms(3)
proof (induction ys)
  case Nil
  show ?case by simp
next
  case (Cons y ys)
  show ?case
  proof (cases "cmp x y \<le> 0")
    case True
    have "cmp x z \<le> 0" if "z \<in> set ys" for z
    proof -
      from Cons.prems that have "cmp y z \<le> 0" by simp
      with True show ?thesis by (rule trans)
    qed
    with Cons.prems True show ?thesis by simp
  next
    case False
    then have "cmp y x \<le> 0" using total[of x y] by simp
    with Cons False show ?thesis by (simp add: set_insert_sorted)
  qed
qed

lemma sorted_js_sort_cmp:
  assumes "\<And>x y. cmp x y \<le> 0 \<or> cmp y x \<le> 0"
    and "\<And>x y z. cmp x y \<le> 0 \<Longrightarrow> cmp y z \<le> 0 \<Longrightarrow> cmp x z \<le> 0"
  shows "sorted_wrt (\<lambda>a b. cmp a b \<le> 0) (js_sort cmp xs)"
  by (induction xs) (simp_all add: js_sort_def sorted_insert_cmp[OF assms])

lemma sorted_byDate:
  assumes "consistentCollation localeCompare"
  shows "sorted_wrt (\<lambda>a b. localeCompare (normalizedDate b) (normalizedDate a) \<le> 0)
           (js_sort (byDate localeCompare) xs)"
proof -
  have total: "byDate localeCompare x y \<le> 0 \<or> byDate localeCompare y x \<le> 0" for x y
    unfolding byDate_def
    by (rule assms[unfolded consistentCollation_def, THEN conjunct1, THEN spec, THEN spec])
  have trans: "byDate localeCompare x z \<le> 0"
    if "byDate localeCompare x y \<le> 0" "byDate localeCompare y z \<le> 0" for x y z
  proof -
    have "localeCompare (normalizedDate z) (normalizedDate y) \<le> 0 \<and>
          localeCompare (normalizedDate y) (normalizedDate x) \<le> 0"
      using that by (simp add: byDate_def)
    then show ?thesis
      unfolding byDate_def
      by (rule assms[unfolded consistentCollation_def, THEN conjunct2, THEN spec, THEN spec,
            THEN spec, THEN mp])
  qed
  have "sorted_wrt (\<lambda>a b. byDate localeCompare a b \<le> 0) (js_sort (byDate localeCompare) xs)"
    by (rule sorted_js_sort_cmp) (rule total, rule trans)
  then show ?thesis by (simp add: byDate_def)
qed

lemma sorted_date_shaped:
  assumes "agreesOnDates localeCompare"
    and "sorted_wrt (\<lambda>a b. localeCompare (normalizedDate b) (normalizedDate a) \<le> 0) xs"
  shows "sorted_wrt (\<lambda>a b. normalizedDate b \<le> normalizedDate a)
           (filter (\<lambda>b. isIsoDate (normalizedDate b)) xs)"
proof -
  have "sorted_wrt (\<lambda>a b. localeCompare (normalizedDate b) (normalizedDate a) \<le> 0)
          (filter (\<lambda>b. isIsoDate (normalizedDate b)) xs)"
    using assms(2) by (rule sorted_wrt_filter)
  then show ?thesis
  proof (rule sorted_wrt_mono_rel[rotated])
    fix a b
    assume "a \<in> set (filter (\<lambda>b. isIsoDate (normalizedDate b)) xs)"
      and "b \<in> set (filter (\<lambda>b. isIsoDate (normalizedDate b)) xs)"
      and "localeCompare (normalizedDate b) (normalizedDate a) \<le> 0"
    then have "isIsoDate (normalizedDate b) \<and> isIsoDate (normalizedDate a)"
      and "localeCompare (normalizedDate b) (normalizedDate a) \<le> 0"
      by simp_all
    then show "normalizedDate b \<le> normalizedDate a"
      using assms(1)[unfolded agreesOnDates_def, THEN spec, THEN spec, THEN mp] by simp
  qed
qed

lemma codeUnitCompare_le: "codeUnitCompare x y \<le> 0 \<longleftrightarrow> x \<le> y"
  by (auto simp: codeUnitCompare_def)

lemma codeUnitCompare_consistent: "consistentCollation codeUnitCompare"
  unfolding consistentCollation_def codeUnitCompare_le
proof (intro conjI allI impI)
  fix x y z :: string
  show "x \<le> y \<or> y \<le> x"
    by (rule linear)
  assume "x \<le> y \<and> y \<le> z"
  then show "x \<le> z"
    by (elim conjE) (rule order_trans)
qed

lemma codeUnitCompare_agrees: "agreesOnDates codeUnitCompare"
  unfolding agreesOnDates_def codeUnitCompare_le by simp

lemma example_dates:
  "map_sum id (\<lambda>idx. map (\<lambda>b. (normalizedDate b, count b)) (dates idx))
     (buildIndices codeUnitCompare exampleConfig dateDocs) =
     Inr [(''2024-05-01'', 1), (''2023-11-02'', 2)]"
  by code_simp

text \<open>
  Claim C6. The engine's collation is a parameter; it is taken to be a consistent
  comparator that decides on two keys of the shape \<open>YYYY-MM-DD\<close> as the comparison
  character by character does. Then the dates index is in descending order of the
  collation of its keys, and its buckets with a date-shaped key are in descending
  lexicographic order of the key (all of the index, when every key is date-shaped), so
  that \<open>2024-05-01\<close> comes before \<open>2023-11-02\<close> even where the older date has more
  documents; the people, organizations, locations and document type indices are in
  descending order of \<open>count\<close>.
\<close>

theorem index_orders:
  assumes "consistentCollation localeCompare" and "agreesOnDates localeCompare"
    and "buildIndices localeCompare cfg ds = Inr idx"
  shows "sorted_wrt (\<lambda>a b. localeCompare (normalizedDate b) (normalizedDate a) \<le> 0) (dates idx) \<and>
         sorted_wrt (\<lambda>a b. normalizedDate b \<le> normalizedDate a)
           (filter (\<lambda>b. isIsoDate (normalizedDate b)) (dates idx)) \<and>
         ((\<forall>b\<in>set (dates idx). isIsoDate (normalizedDate b)) \<longrightarrow>
            sorted_wrt (\<lambda>a b. normalizedDate b \<le> normalizedDate a) (dates idx)) \<and>
         sorted_wrt (\<lambda>a b. count b \<le> count a) (people idx) \<and>
         sorted_wrt (\<lambda>a b. count b \<le> count a) (organizations idx) \<and>
         sorted_wrt (\<lambda>a b. count b \<le> count a) (locations idx) \<and>
         sorted_wrt (\<lambda>a b. count b \<le> count a) (documentTypes idx) \<and>
         map_sum id (\<lambda>idx. map (\<lambda>b. (normalizedDate b, count b)) (dates idx))
           (buildIndices codeUnitCompare exampleConfig dateDocs) =
           Inr [(''2024-05-01'', 1), (''2023-11-02'', 2)]"
proof -
  note parts = buildIndices_Inr[OF assms(3)]
  obtain tm where types: "documentTypes idx = typeBuckets cfg tm"
    using parts(5) by blast
  have coll: "sorted_wrt (\<lambda>a b. localeCompare (normalizedDate b) (normalizedDate a) \<le> 0) (dates idx)"
    unfolding parts(4) dateBuckets_def by (rule sorted_byDate[OF assms(1)])
  have shaped: "sorted_wrt (\<lambda>a b. normalizedDate b \<le> normalizedDate a)
           (filter (\<lambda>b. isIsoDate (normalizedDate b)) (dates idx))"
    by (rule sorted_date_shaped[OF assms(2) coll])
  have whole: "(\<forall>b\<in>set (dates idx). isIsoDate (normalizedDate b)) \<longrightarrow>
            sorted_wrt (\<lambda>a b. normalizedDate b \<le> normalizedDate a) (dates idx)"
  proof
    assume "\<forall>b\<in>set (dates idx). isIsoDate (normalizedDate b)"
    then have "filter (\<lambda>b. isIsoDate (normalizedDate b)) (dates idx) = dates idx"
      by (simp add: filter_id_conv)
    with shaped show "sorted_wrt (\<lambda>a b. normalizedDate b \<le> normalizedDate a) (dates idx)"
      by simp
  qed
  have p: "sorted_wrt (\<lambda>a b. count b \<le> count a) (people idx)"
    and o: "sorted_wrt (\<lambda>a b. count b \<le> count a) (organizations idx)"
    and l: "sorted_wrt (\<lambda>a b. count b \<le> count a) (locations idx)"
    and t: "sorted_wrt (\<lambda>a b. count b \<le> count a) (documentTypes idx)"
    unfolding parts(1-3) types entityBuckets_def typeBuckets_def by (rule sorted_byCount)+
  show ?thesis
    by (intro conjI coll shaped whole p o l t example_dates)
qed

theorem index_orders_witness:
  "consistentCollation codeUnitCompare \<and> agreesOnDates codeUnitCompare \<and>
   (\<exists>idx. buildIndices codeUnitCompare exampleConfig dateDocs = Inr idx \<and>
      map (\<lambda>b. (normalizedDate b, count b)) (dates idx) =
        [(''2024-05-01'', 1), (''2023-11-02'', 2)] \<and>
      sorted_wrt (\<lambda>a b. codeUnitCompare (normalizedDate b) (normalizedDate a) \<le> 0) (dates idx) \<and>
      sorted_wrt (\<lambda>a b. normalizedDate b \<le> normalizedDate a)
        (filter (\<lambda>b. isIsoDate (normalizedDate b)) (dates idx)) \<and>
      sorted_wrt (\<lambda>a b. count b \<le> count a) (people idx))"
proof -
  obtain idx where ret: "buildIndices codeUnitCompare exampleConfig dateDocs = Inr idx"
    and ev: "map (\<lambda>b. (normalizedDate b, count b)) (dates idx) =
        [(''2024-05-01'', 1), (''2023-11-02'', 2)]"
    using map_sum_Inr[OF example_dates] by (elim exE conjE)
  note all = index_orders[OF codeUnitCompare_consistent codeUnitCompare_agrees ret]
  have "\<exists>idx. buildIndices codeUnitCompare exampleConfig dateDocs = Inr idx \<and>
      map (\<lambda>b. (normalizedDate b, count b)) (dates idx) =
        [(''2024-05-01'', 1), (''2023-11-02'', 2)] \<and>
      sorted_wrt (\<lambda>a b. codeUnitCompare (normalizedDate b) (normalizedDate a) \<le> 0) (dates idx) \<and>
      sorted_wrt (\<lambda>a b. normalizedDate b \<le> normalizedDate a)
        (filter (\<lambda>b. isIsoDate (normalizedDate b)) (dates idx)) \<and>
      sorted_wrt (\<lambda>a b. count b \<le> count a) (people idx)"
    by (rule exI[of _ idx])
      (intro conjI ret ev all[THEN conjunct1] all[THEN conjunct2, THEN conjunct1]
        all[THEN conjunct2, THEN conjunct2, THEN conjunct2, THEN conjunct1])
  then show ?thesis
    by (intro conjI codeUnitCompare_consistent codeUnitCompare_agrees)
qed

lemma datePushes_mem:
  "(k, d) \<in> set (datePushes d0) \<longleftrightarrow>
     d = d0 \<and> k \<noteq> [] \<and>
     (\<exists>items x. map_of (document.entities d0) Dates = Some items \<and> x \<in> set items \<and>
                normalizeDate (Some (jsString x)) = Some k)"
proof (cases "map_of (document.entities d0) Dates")
  case None
  then show ?thesis by (simp add: datePushes_def)
next
  case (Some items)
  have "(k, d) \<in> set (datePushes d0) \<longleftrightarrow>
        (\<exists>x\<in>set items. (k, d) \<in> set (case normalizeDate (Some (jsString x)) of
                                         None \<Rightarrow> []
                                       | Some normalized \<Rightarrow>
                                           if normalized \<noteq> [] then [(normalized, d0)] else []))"
    by (simp add: datePushes_def Some)
  also have "\<dots> \<longleftrightarrow> d = d0 \<and> k \<noteq> [] \<and>
                 (\<exists>x\<in>set items. normalizeDate (Some (jsString x)) = Some k)"
  proof -
    have "(k, d) \<in> set (case normalizeDate (Some (jsString x)) of
                           None \<Rightarrow> []
                         | Some normalized \<Rightarrow> if normalized \<noteq> [] then [(normalized, d0)] else []) \<longleftrightarrow>
          d = d0 \<and> k \<noteq> [] \<and> normalizeDate (Some (jsString x)) = Some k" for x
      by (cases "normalizeDate (Some (jsString x))") auto
    then show ?thesis by auto
  qed
  finally show ?thesis by (auto simp: Some)
qed

lemma dedupeDocArray_nonempty: "xs \<noteq> [] \<Longrightarrow> dedupeDocArray xs \<noteq> []"
  using dedupeDocArray_ids[of xs] by (cases xs) auto

lemma dateBuckets_of_entry:
  assumes "e \<in> set m"
  shows "\<exists>b\<in>set (dateBuckets localeCompare m).
           normalizedDate b = fst e \<and> docs b = dedupeDocArray (snd e)"
  using assms by (force simp: dateBuckets_def set_js_sort)

lemma date_bucket_docs:
  assumes "b \<in> set (dateBuckets localeCompare (foldl indexDate [] ds))"
  shows "normalizedDate b \<noteq> [] \<and> docs b \<noteq> [] \<and>
         (\<forall>d\<in>set (docs b). d \<in> set ds \<and>
            (\<exists>items x. map_of (document.entities d) Dates = Some items \<and> x \<in> set items \<and>
                       normalizeDate (Some (jsString x)) = Some (normalizedDate b)))"
proof -
  define kvs where "kvs = concat (map datePushes ds)"
  from dateBuckets_entry[OF assms] obtain e
    where e: "e \<in> set (grouped kvs)" and nd: "normalizedDate b = fst e"
      and dc: "docs b = dedupeDocArray (snd e)"
    by (auto simp: date_map_grouped kvs_def)
  from grouped_entry[OF e]
  have key: "fst e \<in> fst ` set kvs"
    and snd: "snd e = map snd (filter (\<lambda>kv. fst kv = normalizedDate b) kvs)"
    by (simp_all add: nd)
  from key obtain d0 where kd: "(normalizedDate b, d0) \<in> set kvs"
    by (auto simp: nd)
  then obtain d1 where "(normalizedDate b, d0) \<in> set (datePushes d1)"
    by (auto simp: kvs_def)
  then have nonempty: "normalizedDate b \<noteq> []"
    by (simp add: datePushes_mem)
  have "d0 \<in> set (snd e)"
    unfolding snd using kd by force
  then have docs: "docs b \<noteq> []"
    unfolding dc by (intro dedupeDocArray_nonempty) auto
  have each: "d \<in> set ds \<and>
            (\<exists>items x. map_of (document.entities d) Dates = Some items \<and> x \<in> set items \<and>
                       normalizeDate (Some (jsString x)) = Some (normalizedDate b))"
    if "d \<in> set (docs b)" for d
  proof -
    have "d \<in> set (snd e)"
      using that dedupeDocArray_subset[of "snd e"] by (auto simp: dc)
    then have "(normalizedDate b, d) \<in> set kvs"
      unfolding snd by auto
    then obtain d2 where d2: "d2 \<in> set ds" and "(normalizedDate b, d) \<in> set (datePushes d2)"
      by (auto simp: kvs_def)
    then show ?thesis
      by (auto simp: datePushes_mem)
  qed
  from nonempty docs each show ?thesis by blast
qed

lemma date_bucket_exists:
  assumes "d \<in> set ds" and "map_of (document.entities d) Dates = Some items" and "x \<in> set items"
    and "normalizeDate (Some (jsString x)) = Some n" and "n \<noteq> []"
  shows "\<exists>b\<in>set (dateBuckets localeCompare (foldl indexDate [] ds)).
           normalizedDate b = n \<and> unique_id d \<in> unique_id ` set (docs b)"
proof -
  define kvs where "kvs = concat (map datePushes ds)"
  have "(n, d) \<in> set (datePushes d)"
    using assms(2-5) by (auto simp: datePushes_mem)
  then have kd: "(n, d) \<in> set kvs"
    using assms(1) by (auto simp: kvs_def)
  then have "n \<in> set (new_Set (map fst kvs))"
    by (force simp: set_new_Set)
  then have "(n, map snd (filter (\<lambda>kv. fst kv = n) kvs)) \<in> set (grouped kvs)"
    by (auto simp: grouped_def)
  from dateBuckets_of_entry[OF this, of localeCompare] obtain b
    where b: "b \<in> set (dateBuckets localeCompare (grouped kvs))" and nd: "normalizedDate b = n"
      and dc: "docs b = dedupeDocArray (map snd (filter (\<lambda>kv. fst kv = n) kvs))"
    by auto
  have "d \<in> set (map snd (filter (\<lambda>kv. fst kv = n) kvs))"
    using kd by force
  then have "unique_id d \<in> unique_id ` set (docs b)"
    unfolding dc dedupeDocArray_ids by (rule imageI)
  with b nd show ?thesis
    by (auto simp: date_map_grouped kvs_def)
qed

text \<open>
  Claim C10. A date entity whose normalization is \<open>null\<close> or the empty string is skipped
  by the Index Builder: every bucket of the dates index has a non-empty key and at least
  one document, each of its documents has a date entity that normalizes to that key, and
  so a document all of whose date entities normalize to nothing is in no bucket; a date
  entity with a non-empty normalization does put its document into the bucket of that key.
\<close>

theorem falsy_dates_skipped:
  assumes "buildIndices localeCompare cfg ds = Inr idx"
  shows "(\<forall>b\<in>set (dates idx).
      normalizedDate b \<noteq> [] \<and> docs b \<noteq> [] \<and>
      (\<forall>d\<in>set (docs b). d \<in> set ds \<and>
         (\<exists>items x. map_of (document.entities d) Dates = Some items \<and> x \<in> set items \<and>
                    normalizeDate (Some (jsString x)) = Some (normalizedDate b)))) \<and>
   (\<forall>d. (\<forall>items x. map_of (document.entities d) Dates = Some items \<longrightarrow> x \<in> set items \<longrightarrow>
                    \<not> truthy (normalizeDate (Some (jsString x)))) \<longrightarrow>
        (\<forall>b\<in>set (dates idx). d \<notin> set (docs b))) \<and>
   (\<forall>d\<in>set ds. \<forall>items x n.
      map_of (document.entities d) Dates = Some items \<longrightarrow> x \<in> set items \<longrightarrow>
      normalizeDate (Some (jsString x)) = Some n \<longrightarrow> n \<noteq> [] \<longrightarrow>
      (\<exists>b\<in>set (dates idx).
         normalizedDate b = n \<and> unique_id d \<in> unique_id ` set (docs b)))"
proof -
  have idx: "dates idx = dateBuckets localeCompare (foldl indexDate [] ds)"
    by (rule buildIndices_Inr(4)[OF assms])
  have first: "\<forall>b\<in>set (dateBuckets localeCompare (foldl indexDate [] ds)).
      normalizedDate b \<noteq> [] \<and> docs b \<noteq> [] \<and>
      (\<forall>d\<in>set (docs b). d \<in> set ds \<and>
         (\<exists>items x. map_of (document.entities d) Dates = Some items \<and> x \<in> set items \<and>
                    normalizeDate (Some (jsString x)) = Some (normalizedDate b)))"
    using date_bucket_docs by blast
  have second: "\<forall>d. (\<forall>items x. map_of (document.entities d) Dates = Some items \<longrightarrow> x \<in> set items \<longrightarrow>
                    \<not> truthy (normalizeDate (Some (jsString x)))) \<longrightarrow>
        (\<forall>b\<in>set (dateBuckets localeCompare (foldl indexDate [] ds)). d \<notin> set (docs b))"
  proof (intro allI impI ballI notI)
    fix d b
    assume falsy: "\<forall>items x. map_of (document.entities d) Dates = Some items \<longrightarrow> x \<in> set items \<longrightarrow>
                    \<not> truthy (normalizeDate (Some (jsString x)))"
      and b: "b \<in> set (dateBuckets localeCompare (foldl indexDate [] ds))" and d: "d \<in> set (docs b)"
    from date_bucket_docs[OF b] d obtain items x
      where "map_of (document.entities d) Dates = Some items" "x \<in> set items"
        "normalizeDate (Some (jsString x)) = Some (normalizedDate b)" "normalizedDate b \<noteq> []"
      by blast
    with falsy show False
      by (auto simp: truthy_def)
  qed
  have third: "\<forall>d\<in>set ds. \<forall>items x n.
      map_of (document.entities d) Dates = Some items \<longrightarrow> x \<in> set items \<longrightarrow>
      normalizeDate (Some (jsString x)) = Some n \<longrightarrow> n \<noteq> [] \<longrightarrow>
      (\<exists>b\<in>set (dateBuckets localeCompare (foldl indexDate [] ds)).
         normalizedDate b = n \<and> unique_id d \<in> unique_id ` set (docs b))"
    using date_bucket_exists by blast
  show ?thesis
    unfolding idx by (intro conjI first second third)
qed

lemma dateDocs_dates:
  "map (\<lambda>d. map_of (document.entities d) Dates) dateDocs =
     [Some [Str ''November 2, 2023''], Some [Str ''November 2, 2023'', Str ''May 1, 2024''],
      Some [Str '''', Str ''   '']]"
  by code_simp

lemma falsy_examples:
  "\<not> truthy (normalizeDate (Some (jsString (Str '''')))) \<and>
   \<not> truthy (normalizeDate (Some (jsString (Str ''   ''))))"
  by code_simp

lemma map_third: "map f xs = [a, b, c] \<Longrightarrow> \<exists>x. x \<in> set xs \<and> f x = c"
  by (auto simp: map_eq_Cons_conv)

theorem falsy_dates_skipped_witness:
  "\<exists>idx d. buildIndices codeUnitCompare exampleConfig dateDocs = Inr idx \<and>
        d \<in> set dateDocs \<and> map_of (document.entities d) Dates = Some [Str '''', Str ''   ''] \<and>
        \<not> truthy (normalizeDate (Some (jsString (Str '''')))) \<and>
        \<not> truthy (normalizeDate (Some (jsString (Str ''   '')))) \<and>
        map normalizedDate (dates idx) = [''2024-05-01'', ''2023-11-02''] \<and>
        d \<notin> (\<Union>b\<in>set (dates idx). set (docs b))"
proof -
  obtain idx where ret: "buildIndices codeUnitCompare exampleConfig dateDocs = Inr idx"
    and ev: "map (\<lambda>b. (normalizedDate b, count b)) (dates idx) =
        [(''2024-05-01'', 1), (''2023-11-02'', 2)]"
    using map_sum_Inr[OF example_dates] by (elim exE conjE)
  obtain d where d: "d \<in> set dateDocs"
    and dd: "map_of (document.entities d) Dates = Some [Str '''', Str ''   '']"
    using map_third[OF dateDocs_dates] by (elim exE conjE)
  have falsy: "\<forall>items x. map_of (document.entities d) Dates = Some items \<longrightarrow> x \<in> set items \<longrightarrow>
                 \<not> truthy (normalizeDate (Some (jsString x)))"
    using falsy_examples by (auto simp: dd)
  note skip = falsy_dates_skipped[OF ret, THEN conjunct2, THEN conjunct1,
      THEN spec, THEN mp, OF falsy]
  have absent: "d \<notin> (\<Union>b\<in>set (dates idx). set (docs b))"
    using skip by blast
  have keys: "map normalizedDate (dates idx) = [''2024-05-01'', ''2023-11-02'']"
    using arg_cong[OF ev, of "map fst"] by (simp add: comp_def)
  show ?thesis
    by (rule exI[of _ idx], rule exI[of _ d])
      (intro conjI ret d dd falsy_examples[THEN conjunct1] falsy_examples[THEN conjunct2]
        keys absent)
qed

end
